(* ===== verification/C_Prelude.thy ===== *)
theory C_Prelude
  imports Main "HOL-Library.Monad_Syntax" "HOL-Library.Word"
begin

text \<open>
  The part of C and of its standard library that the logging library uses, shared by every
  component of the development.

  A memory block is the list of its bytes, and a C string lives in a block that holds a NUL byte.
  Every access is an option: \<open>None\<close> is an access outside the block, that is, undefined
  behaviour, so a theorem of the form \<open>f x = Some y\<close> always includes memory safety.
  A pointer into a block is the block and an index into it. \<open>size_t\<close> is a natural number
  below \<open>2 ^ 64\<close> and its subtraction is written with its wrap-around; an \<open>int\<close> that holds an
  offset is a natural number whose additions fail when they pass \<open>INT_MAX\<close>.
\<close>

section \<open>Types and constants\<close>

type_synonym block = "char list"

abbreviation NUL :: char where
  "NUL \<equiv> CHR 0x00"

abbreviation QUOTE :: char where
  "QUOTE \<equiv> CHR 0x22"

abbreviation BACKSLASH :: char where
  "BACKSLASH \<equiv> CHR 0x5C"

abbreviation NEWLINE :: char where
  "NEWLINE \<equiv> CHR 0x0A"

definition INT_MAX :: nat where
  "INT_MAX = 2147483647"

text \<open>One more than the largest \<open>size_t\<close>.\<close>

definition SIZE_MOD :: nat where
  "SIZE_MOD = 18446744073709551616"

named_theorems c_mem \<open>exact effect of the memory primitives where they succeed\<close>
named_theorems c_arith \<open>machine arithmetic where it does not wrap\<close>
named_theorems c_lens \<open>lengths of blocks after an operation\<close>

section \<open>Definitions\<close>

subsection \<open>Machine arithmetic\<close>

definition size_sub :: "nat \<Rightarrow> nat \<Rightarrow> nat" where
  "size_sub a b = (a + SIZE_MOD - b) mod SIZE_MOD"

definition size_add :: "nat \<Rightarrow> nat \<Rightarrow> nat" where
  "size_add a b = (a + b) mod SIZE_MOD"

text \<open>The conversion \<open>(size_t)ret\<close> of an \<open>int\<close>.\<close>

definition size_of_int :: "int \<Rightarrow> nat" where
  "size_of_int i = nat (i mod int SIZE_MOD)"

text \<open>\<open>offset += n\<close> on an \<open>int\<close> offset.\<close>

definition int_add :: "nat \<Rightarrow> nat \<Rightarrow> nat option" where
  "int_add a b = (if a + b \<le> INT_MAX then Some (a + b) else None)"

subsection \<open>Memory blocks\<close>

definition rd :: "block \<Rightarrow> nat \<Rightarrow> char option" where
  "rd b i = (if i < length b then Some (b ! i) else None)"

definition wr :: "block \<Rightarrow> nat \<Rightarrow> char \<Rightarrow> block option" where
  "wr b i c = (if i < length b then Some (b[i := c]) else None)"

definition blit :: "block \<Rightarrow> nat \<Rightarrow> char list \<Rightarrow> block option" where
  "blit b p s = (if p + length s \<le> length b
     then Some (take p b @ s @ drop (p + length s) b) else None)"

text \<open>The C string at the start of a block; \<open>None\<close> when the block has no terminating NUL, in
  which case a reader runs off its end.\<close>

definition cstr :: "block \<Rightarrow> string option" where
  "cstr b = (if NUL \<in> set b then Some (takeWhile (\<lambda>c. c \<noteq> NUL) b) else None)"

abbreviation cblock :: "string \<Rightarrow> block" where
  "cblock s \<equiv> s @ [NUL]"

subsection \<open>Character classes and formatted output\<close>

text \<open>\<open>isprint\<close> and \<open>tolower\<close> in the C locale.\<close>

definition isprint :: "char \<Rightarrow> bool" where
  "isprint c \<longleftrightarrow> 32 \<le> (of_char c :: nat) \<and> (of_char c :: nat) \<le> 126"

definition tolower :: "char \<Rightarrow> char" where
  "tolower c = (if 65 \<le> (of_char c :: nat) \<and> (of_char c :: nat) \<le> 90
     then char_of ((of_char c :: nat) + 32) else c)"

fun dec :: "nat \<Rightarrow> string" where
  "dec n = (if n < 10 then [char_of (48 + n)] else dec (n div 10) @ [char_of (48 + n mod 10)])"

declare dec.simps [simp del]

text \<open>\<open>printf\<close>'s \<open>%d\<close>.\<close>

definition dec_int :: "int \<Rightarrow> string" where
  "dec_int i = (if i < 0 then CHR ''-'' # dec (nat (- i)) else dec (nat i))"

text \<open>The value \<open>snprintf\<close> returns for \<open>n\<close> characters of output: the length it would need, or a
  negative value when the length is not an \<open>int\<close>.\<close>

definition printf_ret :: "nat \<Rightarrow> int" where
  "printf_ret n = (if n \<le> INT_MAX then int n else - 1)"

text \<open>\<open>snprintf(&b[p], n, \<dots>)\<close> where the conversions give the text \<open>s\<close>.\<close>

definition snprintf_at :: "block \<Rightarrow> nat \<Rightarrow> nat \<Rightarrow> string \<Rightarrow> (int \<times> block) option" where
  "snprintf_at b p n s =
     (if n = 0 then Some (printf_ret (length s), b)
      else do { b' \<leftarrow> blit b p (cblock (take (n - 1) s)); Some (printf_ret (length s), b') })"

text \<open>\<open>sprintf(&b[p], \<dots>)\<close>: no bound.\<close>

definition sprintf_at :: "block \<Rightarrow> nat \<Rightarrow> string \<Rightarrow> (int \<times> block) option" where
  "sprintf_at b p s = do { b' \<leftarrow> blit b p (cblock s); Some (printf_ret (length s), b') }"

definition quoted :: "string \<Rightarrow> string" where
  "quoted s = [QUOTE] @ s @ [QUOTE]"

subsection \<open>What a writer of a C string leaves behind\<close>

text \<open>
  \<open>writes_at b p len s b'\<close>: block \<open>b'\<close> is \<open>b\<close> with the C string \<open>s\<close> at index \<open>p\<close>, and nothing
  outside the window of \<open>len\<close> bytes at \<open>p\<close> has changed. It is the postcondition every
  formatting function of the library has.
\<close>

definition writes_at :: "block \<Rightarrow> nat \<Rightarrow> nat \<Rightarrow> string \<Rightarrow> block \<Rightarrow> bool" where
  "writes_at b p len s b' \<longleftrightarrow> length b' = length b \<and> take (p + length s) b' = take p b @ s \<and>
     rd b' (p + length s) = Some NUL \<and> length s < len \<and> drop (p + len) b' = drop (p + len) b"

text \<open>
  \<open>fills b q e s b'\<close>: \<open>b'\<close> is \<open>b\<close> with \<open>s\<close> written from index \<open>q\<close>, and nothing before \<open>q\<close> or
  from \<open>e\<close> on has changed: the invariant of the loops that write byte by byte.
\<close>

definition fills :: "block \<Rightarrow> nat \<Rightarrow> nat \<Rightarrow> string \<Rightarrow> block \<Rightarrow> bool" where
  "fills b q e s b' \<longleftrightarrow> length b' = length b \<and> take (q + length s) b' = take q b @ s \<and>
     drop e b' = drop e b"

section \<open>Lemmas\<close>

subsection \<open>Machine arithmetic\<close>

lemma INT_MAX_less_SIZE_MOD: "INT_MAX < SIZE_MOD"
  by (simp add: INT_MAX_def SIZE_MOD_def)

lemma less_SIZE_MOD [simp]: "n \<le> INT_MAX \<Longrightarrow> n < SIZE_MOD"
  using INT_MAX_less_SIZE_MOD by linarith

lemma size_sub_exact [simp, c_arith]:
  assumes "b \<le> a" "a < SIZE_MOD" shows "size_sub a b = a - b"
proof -
  have "a + SIZE_MOD - b = (a - b) + SIZE_MOD" using assms by linarith
  then have "size_sub a b = (a - b) mod SIZE_MOD" by (simp add: size_sub_def)
  then show ?thesis using assms by simp
qed

lemma size_sub_wraps:
  assumes "a < b" "b \<le> SIZE_MOD" shows "size_sub a b = a + SIZE_MOD - b"
proof -
  have "a + SIZE_MOD - b < SIZE_MOD" using assms by linarith
  then show ?thesis by (simp add: size_sub_def)
qed

lemma size_add_exact [simp, c_arith]: "a + b < SIZE_MOD \<Longrightarrow> size_add a b = a + b"
  by (simp add: size_add_def)

lemma size_of_int_nat [simp, c_arith]: "n < SIZE_MOD \<Longrightarrow> size_of_int (int n) = n"
  by (simp add: size_of_int_def flip: of_nat_mod)

lemma size_of_int_minus_one [simp]: "size_of_int (- 1) = SIZE_MOD - 1"
  by (simp add: size_of_int_def SIZE_MOD_def)

lemma int_add_exact [simp, c_arith]: "a + b \<le> INT_MAX \<Longrightarrow> int_add a b = Some (a + b)"
  by (simp add: int_add_def)

lemma printf_ret_exact [simp, c_arith]: "n \<le> INT_MAX \<Longrightarrow> printf_ret n = int n"
  by (simp add: printf_ret_def)

subsection \<open>Blocks\<close>

lemma rd_in [simp, c_mem]: "i < length b \<Longrightarrow> rd b i = Some (b ! i)"
  by (simp add: rd_def)

lemma rd_out [simp]: "length b \<le> i \<Longrightarrow> rd b i = None"
  by (simp add: rd_def)

lemma rd_Some_iff: "rd b i = Some c \<longleftrightarrow> i < length b \<and> b ! i = c"
  by (auto simp: rd_def)

lemma rd_append_at [simp]: "rd (xs @ c # ys) (length xs) = Some c"
  by (simp add: rd_def)

lemma wr_in [simp, c_mem]: "i < length b \<Longrightarrow> wr b i c = Some (b[i := c])"
  by (simp add: wr_def)

lemma wr_out [simp]: "length b \<le> i \<Longrightarrow> wr b i c = None"
  by (simp add: wr_def)

lemma wr_Some_iff: "wr b i c = Some b' \<longleftrightarrow> i < length b \<and> b' = b[i := c]"
  by (auto simp: wr_def)

lemma blit_in [simp, c_mem]:
  "p + length s \<le> length b \<Longrightarrow> blit b p s = Some (take p b @ s @ drop (p + length s) b)"
  by (simp add: blit_def)

lemma blit_length [c_lens]: "blit b p s = Some b' \<Longrightarrow> length b' = length b"
  by (auto simp: blit_def split: if_splits)

lemma take_update_at: "i < length b \<Longrightarrow> take (Suc i) (b[i := c]) = take i b @ [c]"
  by (simp add: take_Suc_conv_app_nth)

lemma take_update_beyond: "n \<le> i \<Longrightarrow> take n (b[i := c]) = take n b"
  by simp

lemma drop_update_before: "i < n \<Longrightarrow> drop n (b[i := c]) = drop n b"
  by simp

lemma takeWhile_until: "x \<notin> set s \<Longrightarrow> takeWhile (\<lambda>c. c \<noteq> x) (s @ x # rest) = s"
  by (induction s) auto

lemma cstr_append_NUL [simp]: "NUL \<notin> set s \<Longrightarrow> cstr (s @ NUL # rest) = Some s"
  by (simp add: cstr_def takeWhile_until)

lemma cstr_SomeD: "cstr b = Some s \<Longrightarrow> NUL \<notin> set s \<and> (\<exists>rest. b = s @ NUL # rest)"
proof -
  assume "cstr b = Some s"
  then have n: "NUL \<in> set b" and s: "s = takeWhile (\<lambda>c. c \<noteq> NUL) b"
    by (auto simp: cstr_def split: if_splits)
  from n have "dropWhile (\<lambda>c. c \<noteq> NUL) b \<noteq> []" by (auto simp: dropWhile_eq_Nil_conv)
  then obtain x rest where d: "dropWhile (\<lambda>c. c \<noteq> NUL) b = x # rest"
    by (cases "dropWhile (\<lambda>c. c \<noteq> NUL) b") auto
  with hd_dropWhile [of "\<lambda>c. c \<noteq> NUL" b] have "x = NUL" by simp
  with d s takeWhile_dropWhile_id [of "\<lambda>c. c \<noteq> NUL" b] have "b = s @ NUL # rest" by simp
  moreover have "NUL \<notin> set s" using s by (auto dest: set_takeWhileD)
  ultimately show ?thesis by blast
qed

lemma cstr_Some_iff: "cstr b = Some s \<longleftrightarrow> NUL \<notin> set s \<and> (\<exists>rest. b = s @ NUL # rest)"
  using cstr_SomeD cstr_append_NUL by blast

subsection \<open>Writers of C strings\<close>

lemma writes_atD:
  assumes "writes_at b p len s b'"
  shows "length b' = length b" and "take (p + length s) b' = take p b @ s"
    and "rd b' (p + length s) = Some NUL" and "length s < len"
    and "drop (p + len) b' = drop (p + len) b"
  using assms by (auto simp: writes_at_def)

lemma take_take_eq: "take n b' = take n b \<Longrightarrow> m \<le> n \<Longrightarrow> take m b' = take m b"
  by (metis min.absorb1 take_take)

lemma drop_drop_eq: "drop n b' = drop n b \<Longrightarrow> n \<le> m \<Longrightarrow> drop m b' = drop m b"
  by (metis drop_drop le_add_diff_inverse2)

lemma fills_Nil [simp]: "fills b q e [] b' \<longleftrightarrow> length b' = length b \<and> take q b' = take q b \<and> drop e b' = drop e b"
  by (simp add: fills_def)

lemma fills_append: "fills b q e s b1 \<Longrightarrow> fills b1 (q + length s) e t b' \<Longrightarrow> fills b q e (s @ t) b'"
  by (auto simp: fills_def add.assoc)

lemma fills_one: "q < e \<Longrightarrow> q < length b \<Longrightarrow> fills b q e [c] (b[q := c])"
  by (simp add: fills_def take_update_at)

lemma fills_writes_at:
  assumes "fills b p (p + len) s b'" "length s < len" "p + len \<le> length b"
  shows "writes_at b p len s (b'[p + length s := NUL])"
  using assms by (auto simp: fills_def writes_at_def rd_def)

lemma writes_at_prefix:
  assumes "writes_at b p len s b'" "p \<le> length b" shows "take p b' = take p b"
proof -
  have "take p (take (p + length s) b') = take p (take p b @ s)"
    using assms by (simp add: writes_at_def)
  with assms(2) show ?thesis by simp
qed

lemma writes_at_cstr:
  assumes "writes_at b 0 len s b'" "NUL \<notin> set s" shows "cstr b' = Some s"
proof -
  have "take (length s) b' = s" "length s < length b'" "b' ! length s = NUL"
    using assms(1) by (auto simp: writes_at_def rd_Some_iff)
  then have "b' = s @ NUL # drop (Suc (length s)) b'" by (metis id_take_nth_drop)
  with assms(2) show ?thesis using cstr_append_NUL by metis
qed

lemma writes_at_snprintf:
  assumes "p + n \<le> length b" "length s < n"
  shows "writes_at b p n s (take p b @ cblock s @ drop (p + length (cblock s)) b)"
  using assms by (auto simp: writes_at_def rd_def nth_append drop_Cons' intro!: arg_cong [where f = "\<lambda>k. drop k b"])

lemma snprintf_fits:
  assumes "p + n \<le> length b" "length s < n" "length s \<le> INT_MAX"
  shows "\<exists>b'. snprintf_at b p n s = Some (int (length s), b') \<and> writes_at b p n s b'"
  using assms writes_at_snprintf [OF assms(1,2)] by (auto simp: snprintf_at_def)

text \<open>Where the output does not fit, the result says so and only the window has changed.\<close>

lemma snprintf_cut:
  assumes "p + n \<le> length b" "n \<le> length s"
  shows "\<exists>b'. snprintf_at b p n s = Some (printf_ret (length s), b') \<and> length b' = length b \<and>
    take p b' = take p b \<and> drop (p + n) b' = drop (p + n) b"
  using assms by (auto simp: snprintf_at_def)

lemma sprintf_fits:
  assumes "p + length s < length b" "length s \<le> INT_MAX"
  shows "sprintf_at b p s =
    Some (int (length s), take p b @ cblock s @ drop (p + length (cblock s)) b)"
  using assms by (simp add: sprintf_at_def)

subsection \<open>Decimal numbers\<close>

lemma dec_nonempty [simp]: "dec n \<noteq> []"
  by (subst dec.simps) simp

lemma digit_code [simp]: "d < 10 \<Longrightarrow> (of_char (char_of (48 + d :: nat) :: char) :: nat) = 48 + d"
  by simp

lemma dec_digits: "c \<in> set (dec n) \<Longrightarrow> 48 \<le> (of_char c :: nat) \<and> (of_char c :: nat) \<le> 57"
proof (induction n rule: dec.induct)
  case (1 n)
  show ?case
  proof (cases "n < 10")
    case True
    with "1.prems" show ?thesis by (subst (asm) dec.simps) auto
  next
    case False
    then have "dec n = dec (n div 10) @ [char_of (48 + n mod 10)]" by (subst dec.simps) simp
    then consider "c \<in> set (dec (n div 10))" | "c = char_of (48 + n mod 10)"
      using "1.prems" by auto
    then show ?thesis
    proof cases
      case 1
      then show ?thesis using "1.IH" False by simp
    next
      case 2
      then show ?thesis by (simp add: mod_less)
    qed
  qed
qed

lemma dec_length_le: "0 < k \<Longrightarrow> n < 10 ^ k \<Longrightarrow> length (dec n) \<le> k"
proof (induction k arbitrary: n)
  case 0
  then show ?case by simp
next
  case (Suc k)
  show ?case
  proof (cases "n < 10")
    case True
    then show ?thesis by (subst dec.simps) simp
  next
    case False
    with Suc.prems have "0 < k" by (cases k) auto
    moreover have "n div 10 < 10 ^ k" using Suc.prems by (simp add: less_mult_imp_div_less)
    ultimately have "length (dec (n div 10)) \<le> k" by (rule Suc.IH)
    then show ?thesis using False by (subst dec.simps) simp
  qed
qed

lemma map_option_bind: "map_option f (Option.bind x g) = Option.bind x (\<lambda>y. map_option f (g y))"
  by (cases x) simp_all

lemma bind_map_option: "Option.bind (map_option f x) g = Option.bind x (\<lambda>y. g (f y))"
  by (cases x) simp_all

end
