(* ===== verification/C_Heap.thy ===== *)
theory C_Heap
  imports C_Prelude
begin

text \<open>
  The C heap the library allocates from: \<open>malloc\<close>, \<open>free\<close>, \<open>strdup\<close> and \<open>errno\<close>.

  Addresses are natural numbers and a pointer is an \<open>addr option\<close> whose \<open>None\<close> is \<open>NULL\<close>. Each
  kind of object has a map of its own from addresses to live objects (here the character blocks;
  the components extend the record with their structs). An address is never handed out twice, so a
  use after free, a double free and a NULL dereference are all lookups that fail, and the operation
  is \<open>None\<close>. The environment decides which allocations fail (\<open>malloc_ok\<close>) and what a fresh block
  holds (\<open>garbage\<close>).
\<close>

type_synonym addr = nat

record heap =
  strs :: "addr \<Rightarrow> block option"
  brk :: addr
  malloc_ok :: "addr \<Rightarrow> bool"
  garbage :: "addr \<Rightarrow> nat \<Rightarrow> char"
  errno :: int

abbreviation ENOMEM :: int where
  "ENOMEM \<equiv> 12"

abbreviation EINVAL :: int where
  "EINVAL \<equiv> 22"

named_theorems heap_simps \<open>unfolding the heap primitives\<close>

definition new_addr :: "'a heap_scheme \<Rightarrow> addr option \<times> 'a heap_scheme" where
  "new_addr h = (if malloc_ok h (brk h) then Some (brk h) else None, h\<lparr>brk := Suc (brk h)\<rparr>)"

definition malloc_block :: "nat \<Rightarrow> 'a heap_scheme \<Rightarrow> addr option \<times> 'a heap_scheme" where
  "malloc_block n h = (case new_addr h of
      (None, h1) \<Rightarrow> (None, h1)
    | (Some a, h1) \<Rightarrow> (Some a, h1\<lparr>strs := (strs h1)(a \<mapsto> map (garbage h1 a) [0..<n])\<rparr>))"

definition strdup :: "block \<Rightarrow> 'a heap_scheme \<Rightarrow> (addr option \<times> 'a heap_scheme) option" where
  "strdup b h = do {
     s \<leftarrow> cstr b;
     Some (case new_addr h of
         (None, h1) \<Rightarrow> (None, h1)
       | (Some a, h1) \<Rightarrow> (Some a, h1\<lparr>strs := (strs h1)(a \<mapsto> cblock s)\<rparr>))
   }"

definition free_block :: "addr option \<Rightarrow> 'a heap_scheme \<Rightarrow> 'a heap_scheme option" where
  "free_block p h = (case p of
      None \<Rightarrow> Some h
    | Some a \<Rightarrow> do { _ \<leftarrow> strs h a; Some (h\<lparr>strs := (strs h)(a := None)\<rparr>) })"

definition deref :: "addr option \<Rightarrow> 'a heap_scheme \<Rightarrow> block option" where
  "deref p h = Option.bind p (strs h)"

definition store_block :: "addr \<Rightarrow> block \<Rightarrow> 'a heap_scheme \<Rightarrow> 'a heap_scheme option" where
  "store_block a b h = do { _ \<leftarrow> strs h a; Some (h\<lparr>strs := (strs h)(a \<mapsto> b)\<rparr>) }"

text \<open>The C string a pointer leads to.\<close>

definition str_at :: "addr option \<Rightarrow> 'a heap_scheme \<Rightarrow> string option" where
  "str_at p h = do { b \<leftarrow> deref p h; cstr b }"

lemmas [heap_simps] = new_addr_def malloc_block_def strdup_def free_block_def deref_def store_block_def str_at_def

lemma new_addr_cases [case_names fail ok]:
  assumes "\<not> malloc_ok h (brk h) \<Longrightarrow> new_addr h = (None, h\<lparr>brk := Suc (brk h)\<rparr>) \<Longrightarrow> P"
    and "malloc_ok h (brk h) \<Longrightarrow> new_addr h = (Some (brk h), h\<lparr>brk := Suc (brk h)\<rparr>) \<Longrightarrow> P"
  shows P
  using assms by (cases "malloc_ok h (brk h)") (auto simp: new_addr_def)

lemma strdup_ok [simp]:
  "cstr b = Some s \<Longrightarrow> malloc_ok h (brk h) \<Longrightarrow>
   strdup b h = Some (Some (brk h), h\<lparr>brk := Suc (brk h), strs := (strs h)(brk h \<mapsto> cblock s)\<rparr>)"
  by (simp add: strdup_def new_addr_def)

lemma strdup_fail [simp]:
  "cstr b = Some s \<Longrightarrow> \<not> malloc_ok h (brk h) \<Longrightarrow> strdup b h = Some (None, h\<lparr>brk := Suc (brk h)\<rparr>)"
  by (simp add: strdup_def new_addr_def)

lemma free_block_NULL [simp]: "free_block None h = Some h"
  by (simp add: free_block_def)

lemma free_block_live [simp]:
  "strs h a = Some b \<Longrightarrow> free_block (Some a) h = Some (h\<lparr>strs := (strs h)(a := None)\<rparr>)"
  by (simp add: free_block_def)

lemma free_block_dead [simp]: "strs h a = None \<Longrightarrow> free_block (Some a) h = None"
  by (simp add: free_block_def)

lemma deref_simps [simp]: "deref None h = None" "deref (Some a) h = strs h a"
  by (simp_all add: deref_def)

subsection \<open>Map restriction\<close>

text \<open>An operation that owns the addresses \<open>A\<close> before and \<open>A'\<close> after leaves the rest of the heap as
  it was, and neither leaks nor steals an object, when the maps agree outside.\<close>

lemma outside_nothing [simp]: "m |` UNIV = m"
  by (simp add: restrict_map_def fun_eq_iff)

lemma outside_eqI:
  "(\<And>a. a \<notin> A \<Longrightarrow> a \<notin> A' \<Longrightarrow> m a = m' a) \<Longrightarrow> (\<And>a. a \<in> A \<Longrightarrow> a \<notin> A' \<Longrightarrow> m' a = None) \<Longrightarrow>
   (\<And>a. a \<in> A' \<Longrightarrow> a \<notin> A \<Longrightarrow> m a = None) \<Longrightarrow> m |` (- A) = m' |` (- A')"
  by (auto simp: restrict_map_def fun_eq_iff)

lemma outside_eqD:
  assumes "m |` (- A) = m' |` (- A')" "a \<notin> A" "m a = Some x"
  shows "m' a = Some x" "a \<notin> A'"
  using fun_cong [OF assms(1), of a] assms(2,3) by (auto simp: restrict_map_def split: if_splits)

end
