(* ===== verification/Json_Escape.thy ===== *)
theory Json_Escape
  imports C_Prelude
begin

text \<open>
  The escaping functions of \<open>src/src/json_format.c\<close>: \<open>mdclog_internal_escape\<close>,
  \<open>mdclog_internal_deescape\<close>, \<open>mdclog_internal_escaped_size\<close> and
  \<open>mdclog_internal_contains_special_characters\<close>.

  Each loop is a recursion over the indices the C loop has, reading the source block and writing
  the target block byte by byte. The specification side is \<open>escape_str\<close>, the escaped form of a
  whole string, and \<open>fit\<close>, its longest prefix of whole (never halved) escapes of a given length.
\<close>

section \<open>The code\<close>

abbreviation REPLACEMENT_CHAR :: char where
  "REPLACEMENT_CHAR \<equiv> CHR '' ''"

definition needs_escape :: "char \<Rightarrow> bool" where
  "needs_escape c \<longleftrightarrow> c = BACKSLASH \<or> c = QUOTE"

function escape_loop ::
  "block \<Rightarrow> nat \<Rightarrow> nat \<Rightarrow> block \<Rightarrow> nat \<Rightarrow> nat \<Rightarrow> (nat \<times> nat \<times> block) option" where
  "escape_loop buffer p len str s d =
     (if d < size_sub len 1 then do {
        c \<leftarrow> rd str s;
        if c = NUL then Some (s, d, buffer)
        else do {
          (d1, b1) \<leftarrow> (if needs_escape c
             then do { b \<leftarrow> wr buffer (p + d) BACKSLASH; Some (d + 1, b) }
             else Some (d, buffer));
          b2 \<leftarrow> wr b1 (p + d1) (if isprint c then c else REPLACEMENT_CHAR);
          escape_loop b2 p len str (s + 1) (d1 + 1)
        }
      } else Some (s, d, buffer))"
  by pat_completeness auto
termination
  by (relation "measure (\<lambda>(buffer, p, len, str, s, d). length str - s)") (auto simp: rd_Some_iff)

declare escape_loop.simps [simp del]

text \<open>The result is the returned length, the \<open>truncated\<close> flag and the buffer.\<close>

definition mdclog_internal_escape ::
  "block \<Rightarrow> nat \<Rightarrow> nat \<Rightarrow> block \<Rightarrow> (nat \<times> bool \<times> block) option" where
  "mdclog_internal_escape buffer p len str = do {
     (s, d, b) \<leftarrow> escape_loop buffer p len str 0 0;
     if d = len then do {
       b1 \<leftarrow> wr b (p + size_sub len 2) NUL;
       Some (size_sub len 2, True, b1)
     } else do {
       b1 \<leftarrow> wr b (p + d) NUL;
       c \<leftarrow> rd str s;
       Some (d, c \<noteq> NUL, b1)
     }
   }"

text \<open>The loop of the de-escaper ends with the output length, or with \<open>None\<close> inside when it meets
  an escape other than the two the escaper writes.\<close>

function deescape_loop ::
  "block \<Rightarrow> nat \<Rightarrow> nat \<Rightarrow> block \<Rightarrow> nat \<Rightarrow> nat \<Rightarrow> (nat option \<times> block) option" where
  "deescape_loop buffer p len str s d =
     (if d < size_sub len 1 then do {
        c \<leftarrow> rd str s;
        if c = NUL then Some (Some d, buffer)
        else if c = BACKSLASH then do {
          c1 \<leftarrow> rd str (s + 1);
          if c1 \<noteq> BACKSLASH \<and> c1 \<noteq> QUOTE then Some (None, buffer)
          else do {
            b \<leftarrow> wr buffer (p + d) c1;
            deescape_loop b p len str (s + 2) (d + 1)
          }
        } else do {
          b \<leftarrow> wr buffer (p + d) c;
          deescape_loop b p len str (s + 1) (d + 1)
        }
      } else Some (Some d, buffer))"
  by pat_completeness auto
termination
  by (relation "measure (\<lambda>(buffer, p, len, str, s, d). length str - s)") (auto simp: rd_Some_iff)

declare deescape_loop.simps [simp del]

definition mdclog_internal_deescape ::
  "block \<Rightarrow> nat \<Rightarrow> nat \<Rightarrow> block \<Rightarrow> (nat \<times> block) option" where
  "mdclog_internal_deescape buffer p len str = do {
     (r, b) \<leftarrow> deescape_loop buffer p len str 0 0;
     (case r of
        None \<Rightarrow> do { b1 \<leftarrow> wr b p NUL; Some (0, b1) }
      | Some d \<Rightarrow> do { b1 \<leftarrow> wr b (p + d) NUL; Some (d, b1) })
   }"

function escaped_size_loop :: "block \<Rightarrow> nat \<Rightarrow> nat \<Rightarrow> nat option" where
  "escaped_size_loop str i len = do {
     c \<leftarrow> rd str i;
     if c = NUL then Some len
     else escaped_size_loop str (i + 1) (size_add (if c = BACKSLASH \<or> c = QUOTE then size_add len 1 else len) 1)
   }"
  by pat_completeness auto
termination
  by (relation "measure (\<lambda>(str, i, len). length str - i)") (auto simp: rd_Some_iff)

declare escaped_size_loop.simps [simp del]

definition mdclog_internal_escaped_size :: "block \<Rightarrow> nat option" where
  "mdclog_internal_escaped_size str = do { len \<leftarrow> escaped_size_loop str 0 0; Some (size_add len 1) }"

text \<open>The index of this loop is an \<open>int\<close>.\<close>

function special_loop :: "block \<Rightarrow> nat \<Rightarrow> bool option" where
  "special_loop str i = do {
     c \<leftarrow> rd str i;
     if c = NUL then Some False
     else if \<not> isprint c \<or> c = BACKSLASH \<or> c = QUOTE then Some True
     else if i < INT_MAX then special_loop str (i + 1)
     else None
   }"
  by pat_completeness auto
termination
  by (relation "measure (\<lambda>(str, i). length str - i)") (auto simp: rd_Some_iff)

declare special_loop.simps [simp del]

definition mdclog_internal_contains_special_characters :: "block \<Rightarrow> bool option" where
  "mdclog_internal_contains_special_characters str = special_loop str 0"

section \<open>The specification\<close>

definition esc1 :: "char \<Rightarrow> string" where
  "esc1 c = (if needs_escape c then [BACKSLASH, c] else if isprint c then [c] else [REPLACEMENT_CHAR])"

definition escape_str :: "string \<Rightarrow> string" where
  "escape_str s = concat (map esc1 s)"

fun fit :: "nat \<Rightarrow> string \<Rightarrow> string" where
  "fit n [] = []"
| "fit n (c # cs) = (if length (esc1 c) \<le> n then esc1 c @ fit (n - length (esc1 c)) cs else [])"

text \<open>How many characters of the string the cut keeps.\<close>

fun fit_count :: "nat \<Rightarrow> string \<Rightarrow> nat" where
  "fit_count n [] = 0"
| "fit_count n (c # cs) =
     (if length (esc1 c) \<le> n then Suc (fit_count (n - length (esc1 c)) cs) else 0)"

definition special_char :: "char \<Rightarrow> bool" where
  "special_char c \<longleftrightarrow> \<not> isprint c \<or> needs_escape c"

text \<open>The reader's view: what de-escaping recovers of a string is the string with each
  non-printable byte replaced.\<close>

definition sanitize :: "string \<Rightarrow> string" where
  "sanitize s = map (\<lambda>c. if isprint c then c else REPLACEMENT_CHAR) s"

fun unescape :: "string \<Rightarrow> string option" where
  "unescape [] = Some []"
| "unescape (c # cs) =
     (if c = BACKSLASH then
        (case cs of
           [] \<Rightarrow> None
         | e # es \<Rightarrow> if e = BACKSLASH \<or> e = QUOTE then map_option ((#) e) (unescape es) else None)
      else map_option ((#) c) (unescape cs))"

section \<open>Lemmas about the specification\<close>

lemma isprint_escapes [simp]: "isprint BACKSLASH" "isprint QUOTE" "isprint REPLACEMENT_CHAR"
  by (simp_all add: isprint_def)

lemma isprint_not_NUL [simp]: "\<not> isprint NUL"
  by (simp add: isprint_def)

lemma needs_escape_print: "needs_escape c \<Longrightarrow> isprint c"
  by (auto simp: needs_escape_def)

lemma esc1_length: "length (esc1 c) = (if needs_escape c then 2 else 1)"
  by (simp add: esc1_def)

lemma esc1_length_pos [simp]: "0 < length (esc1 c)" "esc1 c \<noteq> []"
  by (simp_all add: esc1_def)

lemma esc1_print: "x \<in> set (esc1 c) \<Longrightarrow> isprint x"
  by (auto simp: esc1_def needs_escape_print split: if_splits)

lemma escape_str_simps [simp]:
  "escape_str [] = []" "escape_str (c # cs) = esc1 c @ escape_str cs"
  "escape_str (s @ t) = escape_str s @ escape_str t"
  by (simp_all add: escape_str_def)

lemma escape_str_print: "x \<in> set (escape_str s) \<Longrightarrow> isprint x"
  by (induction s) (auto dest: esc1_print)

lemma escape_str_no_NUL [simp]: "NUL \<notin> set (escape_str s)"
  using escape_str_print isprint_not_NUL by blast

lemma length_escape_str_ge: "length s \<le> length (escape_str s)"
  by (induction s) (auto simp: esc1_length)

lemma fit_length: "length (fit n s) \<le> n"
  by (induction n s rule: fit.induct) auto

lemma fit_full: "length (escape_str s) \<le> n \<Longrightarrow> fit n s = escape_str s"
  by (induction n s rule: fit.induct) auto

lemma fit_prefix: "\<exists>t. escape_str s = fit n s @ t"
proof (induction n s rule: fit.induct)
  case (2 n c cs)
  then show ?case by (cases "length (esc1 c) \<le> n") auto
qed simp

lemma fit_full_iff: "fit n s = escape_str s \<longleftrightarrow> length (escape_str s) \<le> n"
  using fit_full fit_length by metis

lemma fit_count_take: "fit n s = escape_str (take (fit_count n s) s)"
  by (induction n s rule: fit.induct) auto

lemma fit_print: "x \<in> set (fit n s) \<Longrightarrow> isprint x"
  using fit_count_take escape_str_print by metis

lemma fit_no_NUL [simp]: "NUL \<notin> set (fit n s)"
  using fit_print isprint_not_NUL by blast

text \<open>The cut keeps as many characters as the length allows.\<close>

lemma fit_count_maximal:
  "k \<le> length s \<Longrightarrow> length (escape_str (take k s)) \<le> n \<Longrightarrow> k \<le> fit_count n s"
proof (induction n s arbitrary: k rule: fit_count.induct)
  case (2 n c cs)
  then show ?case by (cases k) auto
qed simp

text \<open>Cutting a cut string further is cutting the original.\<close>

lemma fit_take: "m \<le> n \<Longrightarrow> fit m (take (fit_count n s) s) = fit m s"
proof (induction n s arbitrary: m rule: fit_count.induct)
  case (2 n c cs)
  then show ?case by (cases "length (esc1 c) \<le> m") auto
qed simp

lemma fit_take_prefix: "n \<le> k \<Longrightarrow> fit n (take k s) = fit n s"
proof (induction n s arbitrary: k rule: fit.induct)
  case (2 n c cs)
  show ?case
  proof (cases k)
    case 0
    with "2.prems" show ?thesis by simp
  next
    case (Suc k')
    with "2.prems" show ?thesis using "2.IH" [of k'] by (auto simp: esc1_length)
  qed
qed simp

lemma unescape_esc1: "unescape (esc1 c @ t) = map_option ((#) (if isprint c then c else REPLACEMENT_CHAR)) (unescape t)"
  by (auto simp: esc1_def needs_escape_def)

lemma unescape_escape: "unescape (escape_str s) = Some (sanitize s)"
  by (induction s) (simp_all add: sanitize_def unescape_esc1 del: unescape.simps(2))

lemma sanitize_id: "(\<forall>c \<in> set s. isprint c) \<Longrightarrow> sanitize s = s"
  by (induction s) (auto simp: sanitize_def)

lemma escape_str_id_iff: "escape_str s = s \<longleftrightarrow> (\<forall>c \<in> set s. \<not> special_char c)"
proof
  assume e: "escape_str s = s"
  have "needs_escape c \<Longrightarrow> c \<in> set s \<Longrightarrow> length s < length (escape_str s)" for c
  proof (induction s)
    case (Cons a s)
    then show ?case using length_escape_str_ge [of s] by (auto simp: esc1_length)
  qed simp
  then have "\<forall>c \<in> set s. \<not> needs_escape c" using e by auto
  moreover have "\<forall>c \<in> set s. isprint c" using e escape_str_print by metis
  ultimately show "\<forall>c \<in> set s. \<not> special_char c" by (auto simp: special_char_def)
next
  assume "\<forall>c \<in> set s. \<not> special_char c"
  then show "escape_str s = s" by (induction s) (auto simp: special_char_def esc1_def)
qed

section \<open>Correctness of the escaper\<close>

text \<open>The state in which the loop ends: either it wrote exactly the cut \<open>F\<close>, or it wrote one more
  escape whose second half was the last byte of the window.\<close>

definition escape_exit ::
  "block \<Rightarrow> nat \<Rightarrow> nat \<Rightarrow> block \<Rightarrow> nat \<Rightarrow> string \<Rightarrow> bool \<Rightarrow> nat \<Rightarrow> nat \<Rightarrow> block \<Rightarrow> bool" where
  "escape_exit buffer p len str d F whole s' d' b' \<longleftrightarrow>
     fills buffer (p + d) (p + len) F b' \<and>
     (d' = d + length F \<and> d' < len \<and> (\<exists>c. rd str s' = Some c \<and> (c = NUL \<longleftrightarrow> whole)) \<or>
      d' = len \<and> d + length F + 2 = len \<and> \<not> whole)"

lemma escape_exit_step:
  assumes "escape_exit b2 p len str (d + length E) F whole s' d' b'" "fills buffer (p + d) (p + len) E b2"
  shows "escape_exit buffer p len str d (E @ F) whole s' d' b'"
  using assms fills_append [OF assms(2), of F b'] by (auto simp: escape_exit_def add.assoc)

lemma escape_loop_stop:
  "\<not> d < size_sub len 1 \<Longrightarrow> escape_loop buffer p len str s d = Some (s, d, buffer)"
  by (subst escape_loop.simps) simp

lemma escape_loop_step:
  assumes "d < size_sub len 1" "c \<noteq> NUL"
  shows "escape_loop buffer p len (pre @ c # rest) (length pre) d = do {
     (d1, b1) \<leftarrow> (if needs_escape c
        then do { b \<leftarrow> wr buffer (p + d) BACKSLASH; Some (d + 1, b) } else Some (d, buffer));
     b2 \<leftarrow> wr b1 (p + d1) (if isprint c then c else REPLACEMENT_CHAR);
     escape_loop b2 p len (pre @ c # rest) (length pre + 1) (d1 + 1) }"
  using assms by (subst escape_loop.simps) simp

lemma fills_two:
  assumes "q + 1 < length b" "q + 1 < e"
  shows "fills b q e [x, y] (b[q := x, q + 1 := y])"
  using fills_append [OF fills_one [of q e b x], of "[y]" "b[q := x, q + 1 := y]"]
    fills_one [of "q + 1" e "b[q := x]" y] assms by simp

lemma fills_prefix:
  assumes "fills b q e s b'" "q \<le> length b" shows "fills b q e [] b'"
proof -
  have "take q (take (q + length s) b') = take q (take q b @ s)" using assms(1) by (simp add: fills_def)
  then show ?thesis using assms by (simp add: fills_def min_def)
qed

text \<open>One round writes the escaped character.\<close>

lemma escape_loop_char:
  assumes "d + 1 < len" "len < SIZE_MOD" "c \<noteq> NUL" "p + len \<le> length buffer"
  shows "\<exists>b. escape_loop buffer p len (pre @ c # rest) (length pre) d =
      escape_loop b p len (pre @ c # rest) (length (pre @ [c])) (d + length (esc1 c)) \<and> fills buffer (p + d) (p + len) (esc1 c) b"
proof -
  have d: "d < size_sub len 1" using assms(1,2) by simp
  note step = escape_loop_step [OF d assms(3), of buffer p pre rest]
  show ?thesis
  proof (cases "needs_escape c")
    case False
    then show ?thesis using step assms(1,4) fills_one [of "p + d" "p + len" buffer "if isprint c then c else REPLACEMENT_CHAR"]
      by (intro exI [of _ "buffer[p + d := if isprint c then c else REPLACEMENT_CHAR]"]) (auto simp: esc1_def)
  next
    case True
    then show ?thesis using step needs_escape_print [OF True] assms(1,4) fills_two [of "p + d" buffer "p + len" BACKSLASH c]
      by (intro exI [of _ "buffer[p + d := BACKSLASH, p + d + 1 := c]"]) (simp add: esc1_def)
  qed
qed

lemma escape_loop_exit:
  assumes "NUL \<notin> set rem" "d < len" "len < SIZE_MOD" "p + len \<le> length buffer"
  shows "\<exists>s' d' b'. escape_loop buffer p len (pre @ rem @ NUL # post) (length pre) d = Some (s', d', b') \<and>
    escape_exit buffer p len (pre @ rem @ NUL # post) d (fit (len - 1 - d) rem)
      (length (escape_str rem) \<le> len - 1 - d) s' d' b'"
  using assms
proof (induction rem arbitrary: pre d buffer)
  case Nil
  have "escape_loop buffer p len (pre @ NUL # post) (length pre) d = Some (length pre, d, buffer)"
    by (subst escape_loop.simps) simp
  moreover have "escape_exit buffer p len (pre @ NUL # post) d [] True (length pre) d buffer"
    using Nil.prems by (simp add: escape_exit_def)
  ultimately show ?case by auto
next
  case (Cons c rem)
  let ?str = "pre @ (c # rem) @ NUL # post" and ?k = "length (esc1 c)"
  have c: "c \<noteq> NUL" and len: "size_sub len 1 = len - 1" and k: "?k = 1 \<or> ?k = 2" using Cons.prems by (auto simp: esc1_length)
  consider (full) "d = len - 1" | (last) "d + 1 < len" "\<not> d + ?k < len" | (more) "d + 1 < len" "d + ?k < len" using Cons.prems(2) by linarith
  then show ?case
  proof cases
    case full
    moreover have "escape_loop buffer p len ?str (length pre) d = Some (length pre, d, buffer)" using full len by (simp add: escape_loop_stop)
    moreover have "escape_exit buffer p len ?str d [] False (length pre) d buffer" using c full Cons.prems by (auto simp: escape_exit_def)
    ultimately show ?thesis using k by auto
  next
    case last
    then have d: "d + 2 = len" "?k = 2" using k by auto
    obtain b where b: "escape_loop buffer p len ?str (length pre) d = escape_loop b p len ?str (length (pre @ [c])) (d + ?k)"
      "fills buffer (p + d) (p + len) (esc1 c) b" using escape_loop_char [OF last(1) Cons.prems(3) c Cons.prems(4)] by force
    moreover have "escape_loop b p len ?str (length (pre @ [c])) (d + ?k) = Some (length (pre @ [c]), len, b)"
      using escape_loop_stop [of len len b p ?str] d len by simp
    moreover have "escape_exit buffer p len ?str d [] False (length (pre @ [c])) len b"
      using d fills_prefix [OF b(2)] Cons.prems(4) by (auto simp: escape_exit_def)
    ultimately show ?thesis using d by auto
  next
    case more
    obtain b where b: "escape_loop buffer p len ?str (length pre) d = escape_loop b p len ?str (length (pre @ [c])) (d + ?k)"
      "fills buffer (p + d) (p + len) (esc1 c) b" using escape_loop_char [OF more(1) Cons.prems(3) c Cons.prems(4)] by force
    have "p + len \<le> length b" using b(2) Cons.prems(4) by (simp add: fills_def)
    then obtain s' d' b' where r: "escape_loop b p len ?str (length (pre @ [c])) (d + ?k) = Some (s', d', b')"
      "escape_exit b p len ?str (d + ?k) (fit (len - 1 - (d + ?k)) rem) (length (escape_str rem) \<le> len - 1 - (d + ?k)) s' d' b'"
      using Cons.IH [of "d + ?k" b "pre @ [c]"] Cons.prems(1,3) more(2) by auto
    have "fit (len - 1 - d) (c # rem) = esc1 c @ fit (len - 1 - (d + ?k)) rem" "length (escape_str (c # rem)) \<le> len - 1 - d \<longleftrightarrow> length (escape_str rem) \<le> len - 1 - (d + ?k)"
      using more(2) by auto
    then show ?thesis using b(1) r(1) escape_exit_step [OF r(2) b(2)] by simp
  qed
qed

text \<open>The escaper on any C string and any buffer of \<open>len\<close> bytes.\<close>

lemma escape_correct:
  assumes "cstr blk = Some s" "0 < len" "len < SIZE_MOD" "p + len \<le> length buffer"
  shows "\<exists>b'. mdclog_internal_escape buffer p len blk =
      Some (length (fit (len - 1) s), len - 1 < length (escape_str s), b') \<and>
    writes_at buffer p len (fit (len - 1) s) b'"
proof -
  let ?F = "fit (len - 1) s"
  obtain rest where blk: "blk = s @ NUL # rest" and s: "NUL \<notin> set s"
    using assms(1) by (auto simp: cstr_Some_iff)
  obtain s' d' b' where r: "escape_loop buffer p len blk 0 0 = Some (s', d', b')"
    and e: "escape_exit buffer p len blk 0 ?F (length (escape_str s) \<le> len - 1) s' d' b'"
    using escape_loop_exit [OF s assms(2-), of "[]" rest] blk by auto
  have F: "length ?F \<le> len - 1" by (rule fit_length)
  have frame: "writes_at buffer p len ?F (b'[p + length ?F := NUL])"
    using e F assms(2,4) by (intro fills_writes_at) (auto simp: escape_exit_def)
  show ?thesis
  proof (cases "d' = len")
    case True
    then have len: "length ?F + 2 = len" and nw: "\<not> length (escape_str s) \<le> len - 1"
      using e by (auto simp: escape_exit_def)
    then have "size_sub len 2 = length ?F" using assms(3) by simp
    moreover have "p + length ?F < length b'" using len assms(4) e by (simp add: escape_exit_def fills_def)
    ultimately show ?thesis using r True frame nw by (simp add: mdclog_internal_escape_def)
  next
    case False
    then obtain c where d': "d' = length ?F" "d' < len" and c: "rd blk s' = Some c"
      "c = NUL \<longleftrightarrow> length (escape_str s) \<le> len - 1"
      using e by (auto simp: escape_exit_def)
    moreover have "p + length ?F < length b'" using d' assms(4) e by (simp add: escape_exit_def fills_def)
    ultimately show ?thesis using r False frame by (auto simp: mdclog_internal_escape_def not_le)
  qed
qed

section \<open>Correctness of the other functions\<close>

lemma deescape_loop_plain:
  assumes "d < size_sub len 1" "c \<noteq> NUL" "c \<noteq> BACKSLASH" "p + d < length buffer"
  shows "deescape_loop buffer p len (pre @ c # rest) (length pre) d =
    deescape_loop (buffer[p + d := c]) p len (pre @ c # rest) (length pre + 1) (d + 1)"
  using assms by (subst deescape_loop.simps) simp

lemma deescape_loop_pair:
  assumes "d < size_sub len 1" "e = BACKSLASH \<or> e = QUOTE" "p + d < length buffer"
  shows "deescape_loop buffer p len (pre @ BACKSLASH # e # rest) (length pre) d =
    deescape_loop (buffer[p + d := e]) p len (pre @ BACKSLASH # e # rest) (length pre + 2) (d + 1)"
proof -
  have "rd (pre @ BACKSLASH # e # rest) (length pre + 1) = Some e"
    by (simp add: rd_def nth_append)
  then show ?thesis using assms by (subst deescape_loop.simps) auto
qed

lemma deescape_loop_ok:
  assumes "unescape rem = Some u" "NUL \<notin> set rem" "d < len" "len < SIZE_MOD" "p + len \<le> length buffer"
  shows "\<exists>b'. deescape_loop buffer p len (pre @ rem @ NUL # post) (length pre) d =
      Some (Some (d + length (take (len - 1 - d) u)), b') \<and>
    fills buffer (p + d) (p + len) (take (len - 1 - d) u) b'"
  using assms
proof (induction rem arbitrary: pre d buffer u rule: length_induct)
  case (1 rem)
  have len: "size_sub len 1 = len - 1" using 1 by simp
  show ?case
  proof (cases "d < len - 1 \<and> rem \<noteq> []")
    case False
    then show ?thesis using 1 len by (cases "d < len - 1"; subst deescape_loop.simps) auto
  next
    case True
    then obtain c cs where rem: "rem = c # cs" and d: "d < len - 1" by (cases rem) auto
    define e es k where "e = (if c = BACKSLASH then hd cs else c)"
      and "es = (if c = BACKSLASH then tl cs else cs)" and "k = (if c = BACKSLASH then 2 else 1 :: nat)"
    have u: "\<exists>v. u = e # v \<and> unescape es = Some v" and es: "length es < length rem" "NUL \<notin> set es"
      using "1.prems"(1,2) rem
      by (auto simp: e_def es_def split: if_splits list.splits)
    have pre: "\<exists>q. pre @ rem @ NUL # post = q @ es @ NUL # post \<and> length q = length pre + k"
      using "1.prems"(1,2) rem
      by (intro exI [of _ "pre @ take k rem"]) (auto simp: e_def es_def k_def split: if_splits list.splits)
    then obtain q where q: "pre @ rem @ NUL # post = q @ es @ NUL # post" "length q = length pre + k" by blast
    obtain v where v: "u = e # v" "unescape es = Some v" using u by blast
    let ?b = "buffer[p + d := e]"
    have "deescape_loop buffer p len (pre @ rem @ NUL # post) (length pre) d =
        deescape_loop ?b p len (pre @ rem @ NUL # post) (length pre + k) (d + 1)"
    proof (cases "c = BACKSLASH")
      case True
      then show ?thesis using "1.prems" rem d len deescape_loop_pair [of d len e p buffer pre "es @ NUL # post"]
        by (cases cs) (auto simp: e_def es_def k_def split: if_splits)
    next
      case False
      then show ?thesis using "1.prems" rem d len deescape_loop_plain [of d len c p buffer pre "cs @ NUL # post"]
        by (auto simp: e_def es_def k_def)
    qed
    then have eq: "deescape_loop buffer p len (pre @ rem @ NUL # post) (length pre) d =
        deescape_loop ?b p len (q @ es @ NUL # post) (length q) (d + 1)"
      by (simp only: q)
    have "d + 1 < len" using d by simp
    then obtain b' where
      b': "deescape_loop ?b p len (q @ es @ NUL # post) (length q) (d + 1) =
        Some (Some (d + 1 + length (take (len - 1 - (d + 1)) v)), b')"
      "fills ?b (p + (d + 1)) (p + len) (take (len - 1 - (d + 1)) v) b'"
      using "1.IH" [rule_format, of es v "d + 1" ?b q] es v(2) "1.prems" by auto
    have "fills buffer (p + d) (p + len) ([e] @ take (len - 1 - (d + 1)) v) b'"
      by (rule fills_append [OF fills_one]) (use b'(2) d "1.prems" in auto)
    moreover have "take (len - 1 - d) u = [e] @ take (len - 1 - (d + 1)) v"
      using d v by (auto simp: take_Cons')
    ultimately show ?thesis using eq b'(1) by auto
  qed
qed

lemma deescape_correct:
  assumes "cstr blk = Some t" "unescape t = Some u" "0 < len" "len < SIZE_MOD" "p + len \<le> length buffer"
  shows "\<exists>b'. mdclog_internal_deescape buffer p len blk = Some (length (take (len - 1) u), b') \<and>
    writes_at buffer p len (take (len - 1) u) b'"
proof -
  let ?U = "take (len - 1) u"
  obtain rest where blk: "blk = t @ NUL # rest" and t: "NUL \<notin> set t"
    using assms(1) by (auto simp: cstr_Some_iff)
  obtain b' where r: "deescape_loop buffer p len blk 0 0 = Some (Some (length ?U), b')"
    and f: "fills buffer p (p + len) ?U b'"
    using deescape_loop_ok [OF assms(2) t assms(3-), of "[]" rest] blk by auto
  have "length ?U < len" using assms(3) by simp
  then have "writes_at buffer p len ?U (b'[p + length ?U := NUL])" "p + length ?U < length b'"
    using fills_writes_at [OF f _ assms(5)] f assms(5) by (simp_all add: fills_def)
  then show ?thesis using r by (simp add: mdclog_internal_deescape_def)
qed

text \<open>On a string with an escape it does not know the de-escaper gives up.\<close>

lemma deescape_loop_bad:
  assumes "unescape rem = None" "NUL \<notin> set rem" "d + length rem < len" "len < SIZE_MOD" "p + len \<le> length buffer"
  shows "\<exists>b'. deescape_loop buffer p len (pre @ rem @ NUL # post) (length pre) d = Some (None, b') \<and>
    length b' = length buffer"
  using assms
proof (induction rem arbitrary: pre d buffer rule: length_induct)
  case (1 rem)
  have len: "size_sub len 1 = len - 1" using 1 by simp
  obtain c cs where rem: "rem = c # cs" using "1.prems" by (cases rem) auto
  have d: "d < len - 1" using "1.prems" rem by simp
  show ?case
  proof (cases "c = BACKSLASH")
    case False
    then have "deescape_loop buffer p len (pre @ rem @ NUL # post) (length pre) d =
        deescape_loop (buffer[p + d := c]) p len ((pre @ [c]) @ cs @ NUL # post) (length (pre @ [c])) (d + 1)"
      using "1.prems" rem d len deescape_loop_plain [of d len c p buffer pre "cs @ NUL # post"] by auto
    then show ?thesis using "1.IH" [rule_format, of cs "d + 1" "buffer[p + d := c]" "pre @ [c]"] "1.prems" rem False
      by (auto simp del: append_assoc)
  next
    case True
    show ?thesis
    proof (cases "cs \<noteq> [] \<and> (hd cs = BACKSLASH \<or> hd cs = QUOTE)")
      case False
      then have "(cs @ NUL # post) ! 0 \<noteq> BACKSLASH \<and> (cs @ NUL # post) ! 0 \<noteq> QUOTE"
        by (cases cs) auto
      then show ?thesis using True rem d len
        by (subst deescape_loop.simps) (auto simp: rd_def nth_append)
    next
      case esc: True
      then obtain e es where cs: "cs = e # es" "e = BACKSLASH \<or> e = QUOTE" by (cases cs) auto
      then have "deescape_loop buffer p len (pre @ rem @ NUL # post) (length pre) d =
          deescape_loop (buffer[p + d := e]) p len ((pre @ [c, e]) @ es @ NUL # post) (length (pre @ [c, e])) (d + 1)"
        using "1.prems" rem d len True deescape_loop_pair [of d len e p buffer pre "es @ NUL # post"] by auto
      then show ?thesis
        using "1.IH" [rule_format, of es "d + 1" "buffer[p + d := e]" "pre @ [c, e]"] "1.prems" rem cs True
        by (auto simp del: append_assoc)
    qed
  qed
qed

text \<open>The size that is returned is a \<open>size_t\<close>: it is the size of the escaped text as long as that fits.\<close>

lemma escaped_size_loop_eq:
  "NUL \<notin> set rem \<Longrightarrow> n < SIZE_MOD \<Longrightarrow>
    escaped_size_loop (pre @ rem @ NUL # post) (length pre) n = Some ((n + length (escape_str rem)) mod SIZE_MOD)"
proof (induction rem arbitrary: pre n)
  case Nil
  then show ?case by (subst escaped_size_loop.simps) simp
next
  case (Cons c rem)
  have "escaped_size_loop ((pre @ [c]) @ rem @ NUL # post) (length (pre @ [c])) (m mod SIZE_MOD) =
      Some ((m mod SIZE_MOD + length (escape_str rem)) mod SIZE_MOD)" for m
    using Cons.prems by (intro Cons.IH) (auto simp: SIZE_MOD_def)
  then have "escaped_size_loop (pre @ c # rem @ NUL # post) (Suc (length pre)) (m mod SIZE_MOD) =
      Some ((m + length (escape_str rem)) mod SIZE_MOD)" for m by (simp add: mod_add_left_eq)
  note loop = this [of "n + length (esc1 c)"]
  have "size_add (if c = BACKSLASH \<or> c = QUOTE then size_add n 1 else n) 1 = (n + length (esc1 c)) mod SIZE_MOD"
    by (simp add: esc1_length needs_escape_def size_add_def mod_Suc_eq)
  moreover have "c \<noteq> NUL" using Cons.prems by auto
  ultimately show ?case using loop by (subst escaped_size_loop.simps) (simp add: add.assoc)
qed

lemma escaped_size_mod: "cstr blk = Some s \<Longrightarrow> mdclog_internal_escaped_size blk = Some ((length (escape_str s) + 1) mod SIZE_MOD)"
  using escaped_size_loop_eq [of s 0 "[]"] less_SIZE_MOD [of 0]
  by (auto simp: mdclog_internal_escaped_size_def cstr_Some_iff size_add_def mod_Suc_eq)

lemma escaped_size_correct: "cstr blk = Some s \<Longrightarrow> length (escape_str s) + 1 < SIZE_MOD \<Longrightarrow>
    mdclog_internal_escaped_size blk = Some (length (escape_str s) + 1)"
  by (simp add: escaped_size_mod)

lemma special_loop_eq:
  assumes "NUL \<notin> set rem" "length pre + length rem \<le> INT_MAX"
  shows "special_loop (pre @ rem @ NUL # post) (length pre) = Some (\<exists>c \<in> set rem. special_char c)"
  using assms
proof (induction rem arbitrary: pre)
  case Nil
  then show ?case by (subst special_loop.simps) simp
next
  case (Cons c rem)
  have "special_loop ((pre @ [c]) @ rem @ NUL # post) (length (pre @ [c])) = Some (\<exists>c \<in> set rem. special_char c)"
    using Cons by (intro Cons.IH) auto
  with Cons.prems show ?case
    by (subst special_loop.simps) (auto simp: special_char_def needs_escape_def)
qed

lemma contains_special_correct:
  "cstr blk = Some s \<Longrightarrow> length s \<le> INT_MAX \<Longrightarrow>
   mdclog_internal_contains_special_characters blk = Some (\<exists>c \<in> set s. special_char c)"
  using special_loop_eq [of s "[]"]
  by (auto simp: mdclog_internal_contains_special_characters_def cstr_Some_iff)

text \<open>The exact-size escape that \<open>escape_and_copy\<close> and \<open>init_library\<close> make.\<close>

lemma escape_exact:
  assumes "cstr blk = Some s" "length (escape_str s) + 1 < SIZE_MOD" "length buffer = length (escape_str s) + 1"
  shows "mdclog_internal_escape buffer 0 (length (escape_str s) + 1) blk =
    Some (length (escape_str s), False, cblock (escape_str s))"
proof -
  let ?E = "escape_str s"
  obtain b' where e: "mdclog_internal_escape buffer 0 (length ?E + 1) blk =
      Some (length (fit (length ?E) s), length ?E < length ?E, b')"
    and w: "writes_at buffer 0 (length ?E + 1) (fit (length ?E) s) b'"
    using escape_correct [OF assms(1) _ assms(2), of 0 buffer] assms(3) by auto
  have f: "fit (length ?E) s = ?E" by (simp add: fit_full)
  then have l: "length b' = length ?E + 1" and t: "take (length ?E) b' = ?E" and r: "rd b' (length ?E) = Some NUL"
    using w assms(3) by (auto simp: writes_at_def)
  have "b' = take (length ?E) b' @ [b' ! length ?E]"
    using l by (metis add.commute lessI plus_1_eq_Suc take_Suc_conv_app_nth take_all order_refl)
  with t r l have "b' = cblock ?E" by (simp add: rd_def)
  with e f show ?thesis by simp
qed

section \<open>Properties\<close>

lemma fit_count_le: "fit_count n s \<le> length s"
  by (induction n s rule: fit_count.induct) auto

lemma fit_count_whole: "fit_count n s < length s \<longleftrightarrow> n < length (escape_str s)"
proof
  assume "fit_count n s < length s"
  then show "n < length (escape_str s)" using fit_count_maximal [of "length s" s n] by (auto simp: not_le [symmetric])
next
  assume "n < length (escape_str s)"
  then have "fit n s \<noteq> escape_str s" using fit_full_iff [of n s] by simp
  then show "fit_count n s < length s" using fit_count_take [of n s] fit_count_le [of n s] by (cases "fit_count n s = length s") auto
qed

text \<open>C5: \<open>mdclog_internal_escape\<close> writes, inside its window and with a terminating NUL, the escaped
  text of the longest prefix of the string whose escaped text fits; an escape sequence is never
  split, and the truncation flag is set exactly when characters were left out.\<close>

theorem escape_longest_prefix:
  assumes "cstr blk = Some s" "0 < len" "len < SIZE_MOD" "p + len \<le> length buffer"
  shows "\<exists>k b'. k \<le> length s \<and> mdclog_internal_escape buffer p len blk = Some (length (escape_str (take k s)), k < length s, b') \<and>
    writes_at buffer p len (escape_str (take k s)) b' \<and>
    (\<forall>j \<le> length s. length (escape_str (take j s)) < len \<longrightarrow> j \<le> k)"
proof -
  let ?k = "fit_count (len - 1) s"
  have "\<forall>j \<le> length s. length (escape_str (take j s)) < len \<longrightarrow> j \<le> ?k" using fit_count_maximal [of _ s "len - 1"] by auto
  with escape_correct [OF assms] fit_count_take [of "len - 1" s] fit_count_le [of "len - 1" s] show ?thesis
    unfolding fit_count_whole [symmetric] by (intro exI [of _ ?k]) auto
qed

theorem escape_longest_prefix_witness:
  "cstr (cblock [CHR ''a'', QUOTE]) = Some [CHR ''a'', QUOTE] \<and>
   (\<exists>k b'. mdclog_internal_escape (replicate 5 NUL) 1 3 (cblock [CHR ''a'', QUOTE]) =
      Some (length (escape_str (take k [CHR ''a'', QUOTE])), k < 2, b'))"
  using escape_longest_prefix [of "cblock [CHR ''a'', QUOTE]" "[CHR ''a'', QUOTE]" 3 1 "replicate 5 NUL"]
  by (auto simp: SIZE_MOD_def cstr_def numeral_2_eq_2)

text \<open>C23: de-escaping what the escaper wrote gives back the string, up to the non-printable
  characters that the escaper replaced by spaces.\<close>

theorem deescape_escape:
  assumes "cstr blk = Some s" "length (escape_str s) < len" "len < SIZE_MOD" "len \<le> length buffer"
    "length s < len2" "len2 < SIZE_MOD" "len2 \<le> length buffer2"
  shows "\<exists>b1 b2. mdclog_internal_escape buffer 0 len blk = Some (length (escape_str s), False, b1) \<and>
    mdclog_internal_deescape buffer2 0 len2 b1 = Some (length s, b2) \<and> cstr b2 = Some (sanitize s)"
proof -
  have F: "fit (len - 1) s = escape_str s" using assms(2) by (intro fit_full) simp
  obtain b1 where e: "mdclog_internal_escape buffer 0 len blk = Some (length (escape_str s), False, b1)"
    and w: "writes_at buffer 0 len (escape_str s) b1"
    using escape_correct [of blk s len 0 buffer] assms(1-4) F by auto
  have U: "take (len2 - 1) (sanitize s) = sanitize s" "length (sanitize s) = length s" using assms(5) by (simp_all add: sanitize_def)
  have "cstr b1 = Some (escape_str s)" using writes_at_cstr [OF w] by simp
  then obtain b2 where d: "mdclog_internal_deescape buffer2 0 len2 b1 = Some (length s, b2)" "writes_at buffer2 0 len2 (sanitize s) b2"
    using deescape_correct [of b1 "escape_str s" "sanitize s" len2 0 buffer2] unescape_escape [of s] assms(5-7) U by auto
  have "NUL \<notin> set (sanitize s)" by (auto simp: sanitize_def)
  then show ?thesis using e d writes_at_cstr [OF d(2)] by blast
qed

theorem deescape_escape_witness:
  "\<exists>b1 b2. mdclog_internal_escape (replicate 8 NUL) 0 8 (cblock [BACKSLASH, NEWLINE]) = Some (Suc 2, False, b1) \<and>
    mdclog_internal_deescape (replicate 3 NUL) 0 3 b1 = Some (Suc 1, b2) \<and> cstr b2 = Some [BACKSLASH, CHR '' '']"
  using deescape_escape [of "cblock [BACKSLASH, NEWLINE]" "[BACKSLASH, NEWLINE]" 8 "replicate 8 NUL" 3 "replicate 3 NUL"]
  by (simp add: SIZE_MOD_def cstr_def esc1_def needs_escape_def isprint_def sanitize_def numeral_2_eq_2)

text \<open>On a string that is not the escaped form of anything, \<open>mdclog_internal_deescape\<close> returns 0
  and leaves an empty string.\<close>

lemma deescape_rejects:
  assumes "cstr blk = Some t" "unescape t = None" "length t < len" "len < SIZE_MOD" "p + len \<le> length buffer"
  shows "\<exists>b'. mdclog_internal_deescape buffer p len blk = Some (0, b') \<and> rd b' p = Some NUL \<and> length b' = length buffer"
proof -
  obtain rest where blk: "blk = t @ NUL # rest" "NUL \<notin> set t" using assms(1) by (auto simp: cstr_Some_iff)
  then obtain b' where "deescape_loop buffer p len blk 0 0 = Some (None, b')" "length b' = length buffer"
    using deescape_loop_bad [of t 0 len p buffer "[]" rest] assms(2-5) by auto
  then show ?thesis using assms(3,5) by (simp add: mdclog_internal_deescape_def rd_def)
qed

lemma deescape_rejects_witness:
  "unescape [CHR ''a'', BACKSLASH, CHR ''n''] = None \<and>
   (\<exists>b'. mdclog_internal_deescape (replicate 4 QUOTE) 0 4 (cblock [CHR ''a'', BACKSLASH, CHR ''n'']) = Some (0, b') \<and> rd b' 0 = Some NUL)"
  using deescape_rejects [of "cblock [CHR ''a'', BACKSLASH, CHR ''n'']" "[CHR ''a'', BACKSLASH, CHR ''n'']" 4 0 "replicate 4 QUOTE"]
  by (auto simp: SIZE_MOD_def cstr_def)

text \<open>C37: \<open>mdclog_internal_escaped_size\<close> is the least buffer length for which
  \<open>mdclog_internal_escape\<close> does not truncate, as long as that length fits into a \<open>size_t\<close>.\<close>

theorem escaped_size_least:
  assumes "cstr blk = Some s" "length (escape_str s) + 1 < SIZE_MOD"
  shows "\<exists>n. mdclog_internal_escaped_size blk = Some n \<and>
    (\<forall>len p buffer. 0 < len \<longrightarrow> len < SIZE_MOD \<longrightarrow> p + len \<le> length buffer \<longrightarrow>
      (\<exists>ret b'. mdclog_internal_escape buffer p len blk = Some (ret, len < n, b')))"
proof -
  have "\<exists>ret b'. mdclog_internal_escape buffer p len blk = Some (ret, len < length (escape_str s) + 1, b')"
    if "0 < len" "len < SIZE_MOD" "p + len \<le> length buffer" for len p buffer
  proof -
    have "(len - 1 < length (escape_str s)) = (len < length (escape_str s) + 1)" using that(1) by auto
    then show ?thesis using escape_correct [OF assms(1) that] by auto
  qed
  then show ?thesis using escaped_size_correct [OF assms] by blast
qed

theorem escaped_size_least_witness:
  "\<exists>n. mdclog_internal_escaped_size (cblock [QUOTE]) = Some n \<and>
     (\<exists>ret b'. mdclog_internal_escape (replicate 3 NUL) 0 3 (cblock [QUOTE]) = Some (ret, 3 < n, b'))"
proof -
  have "cstr (cblock [QUOTE]) = Some [QUOTE]" "length (escape_str [QUOTE]) + 1 < SIZE_MOD" by (simp_all add: SIZE_MOD_def cstr_def esc1_length)
  from escaped_size_least [OF this] show ?thesis by (fastforce simp: SIZE_MOD_def)
qed

text \<open>C38: \<open>mdclog_internal_contains_special_characters\<close> finds exactly the strings that escaping
  would change.\<close>

theorem contains_special_iff_changed:
  assumes "cstr blk = Some s" "length s \<le> INT_MAX"
  shows "mdclog_internal_contains_special_characters blk = Some (escape_str s \<noteq> s)"
  using contains_special_correct [OF assms] by (auto simp: escape_str_id_iff)

theorem contains_special_iff_changed_witness:
  "mdclog_internal_contains_special_characters (cblock [CHR ''a'', BACKSLASH]) = Some True"
  using contains_special_iff_changed [of "cblock [CHR ''a'', BACKSLASH]" "[CHR ''a'', BACKSLASH]"]
  by (simp add: INT_MAX_def cstr_def esc1_def needs_escape_def isprint_def)

end
