(* ===== verification/Mdc.thy ===== *)
theory Mdc
  imports C_Heap Json_Escape
begin

text \<open>
  The Mapped Diagnostic Context store of \<open>src/src/mdc.c\<close>: one doubly linked list of key/value
  entries per thread, found through a pthread key.

  The heap record is extended with the live \<open>struct mdc\<close> and \<open>struct mdclist\<close> objects and with
  the pthread key: \<open>tls\<close> is the key's value in each thread, \<open>key_created\<close> whether \<open>pthread_once\<close>
  has run, and the three error codes are what the environment answers. Every function of the C
  file is a definition of the same name; \<open>t\<close> is the calling thread. \<open>None\<close> as a result is the end
  of the run: undefined behaviour, \<open>abort()\<close>, or a walk along a cyclic list.
\<close>

section \<open>State\<close>

type_synonym thread = nat

record mdc =
  mdc_prev :: "addr option"
  mdc_next :: "addr option"
  mdc_key :: "addr option"
  mdc_value :: "addr option"

record mdclist =
  mdclist_head :: "addr option"

record mdc_heap = heap +
  nodes :: "addr \<Rightarrow> mdc option"
  lists :: "addr \<Rightarrow> mdclist option"
  tls :: "thread \<Rightarrow> addr option"
  key_created :: bool
  key_create_ec :: int
  once_ec :: int
  setspecific_ec :: "thread \<Rightarrow> int"

section \<open>Operations\<close>

definition upd_node :: "addr \<Rightarrow> (mdc \<Rightarrow> mdc) \<Rightarrow> 'a mdc_heap_scheme \<Rightarrow> 'a mdc_heap_scheme option" where
  "upd_node a f h = do { n \<leftarrow> nodes h a; Some (h\<lparr>nodes := (nodes h)(a \<mapsto> f n)\<rparr>) }"

definition upd_list :: "addr \<Rightarrow> (mdclist \<Rightarrow> mdclist) \<Rightarrow> 'a mdc_heap_scheme \<Rightarrow> 'a mdc_heap_scheme option" where
  "upd_list l f h = do { x \<leftarrow> lists h l; Some (h\<lparr>lists := (lists h)(l \<mapsto> f x)\<rparr>) }"

definition alloc_entry :: "'a mdc_heap_scheme \<Rightarrow> addr option \<times> 'a mdc_heap_scheme" where
  "alloc_entry h = (case new_addr h of
      (None, h1) \<Rightarrow> (None, h1)
    | (Some a, h1) \<Rightarrow> (Some a, h1\<lparr>nodes := (nodes h1)(a \<mapsto>
        \<lparr>mdc_prev = None, mdc_next = None, mdc_key = None, mdc_value = None\<rparr>)\<rparr>))"

definition add_to_list :: "addr \<Rightarrow> addr \<Rightarrow> 'a mdc_heap_scheme \<Rightarrow> 'a mdc_heap_scheme option" where
  "add_to_list mdc list h = do {
     l \<leftarrow> lists h list;
     h1 \<leftarrow> (case mdclist_head l of
         None \<Rightarrow> Some h
       | Some old \<Rightarrow> do {
           h1 \<leftarrow> upd_node mdc (\<lambda>n. n\<lparr>mdc_next := Some old\<rparr>) h;
           upd_node old (\<lambda>n. n\<lparr>mdc_prev := Some mdc\<rparr>) h1 });
     upd_list list (\<lambda>l. l\<lparr>mdclist_head := Some mdc\<rparr>) h1
   }"

definition list_head :: "addr \<Rightarrow> 'a mdc_heap_scheme \<Rightarrow> addr option option" where
  "list_head list h = do { l \<leftarrow> lists h list; Some (mdclist_head l) }"

definition mdc_destroy :: "addr \<Rightarrow> 'a mdc_heap_scheme \<Rightarrow> 'a mdc_heap_scheme option" where
  "mdc_destroy mdc h = do {
     n \<leftarrow> nodes h mdc;
     h1 \<leftarrow> free_block (mdc_key n) h;
     h2 \<leftarrow> free_block (mdc_value n) h1;
     Some (h2\<lparr>nodes := (nodes h2)(mdc := None)\<rparr>)
   }"

definition rm_from_list :: "addr \<Rightarrow> addr \<Rightarrow> 'a mdc_heap_scheme \<Rightarrow> 'a mdc_heap_scheme option" where
  "rm_from_list mdc list h = do {
     l \<leftarrow> lists h list;
     n \<leftarrow> nodes h mdc;
     h1 \<leftarrow> (if mdclist_head l = Some mdc
        then upd_list list (\<lambda>l. l\<lparr>mdclist_head := mdc_next n\<rparr>) h else Some h);
     h2 \<leftarrow> (case mdc_prev n of
         None \<Rightarrow> Some h1
       | Some p \<Rightarrow> upd_node p (\<lambda>m. m\<lparr>mdc_next := mdc_next n\<rparr>) h1);
     n \<leftarrow> nodes h2 mdc;
     h3 \<leftarrow> (case mdc_next n of
         None \<Rightarrow> Some h2
       | Some x \<Rightarrow> upd_node x (\<lambda>m. m\<lparr>mdc_prev := mdc_prev n\<rparr>) h2);
     mdc_destroy mdc h3
   }"

partial_function (option) empty_loop ::
  "addr \<Rightarrow> addr option \<Rightarrow> 'a mdc_heap_scheme \<Rightarrow> 'a mdc_heap_scheme option" where
  "empty_loop list mdc h = (case mdc of
      None \<Rightarrow> Some h
    | Some a \<Rightarrow> do {
        n \<leftarrow> nodes h a;
        h1 \<leftarrow> rm_from_list a list h;
        empty_loop list (mdc_next n) h1 })"

definition empty_list :: "addr option \<Rightarrow> 'a mdc_heap_scheme \<Rightarrow> 'a mdc_heap_scheme option" where
  "empty_list list h = (case list of
      None \<Rightarrow> Some h
    | Some l \<Rightarrow> do { p \<leftarrow> list_head l h; empty_loop l p h })"

definition free_list :: "addr option \<Rightarrow> 'a mdc_heap_scheme \<Rightarrow> 'a mdc_heap_scheme option" where
  "free_list list h = (case list of
      None \<Rightarrow> Some h
    | Some l \<Rightarrow> do { _ \<leftarrow> lists h l; Some (h\<lparr>lists := (lists h)(l := None)\<rparr>) })"

definition pthread_setspecific :: "thread \<Rightarrow> addr option \<Rightarrow> 'a mdc_heap_scheme \<Rightarrow> int \<times> 'a mdc_heap_scheme" where
  "pthread_setspecific t p h =
     (if setspecific_ec h t = 0 then (0, h\<lparr>tls := (tls h)(t := p)\<rparr>) else (setspecific_ec h t, h))"

definition destroy_list :: "thread \<Rightarrow> addr option \<Rightarrow> 'a mdc_heap_scheme \<Rightarrow> 'a mdc_heap_scheme option" where
  "destroy_list t list h = do {
     h1 \<leftarrow> empty_list list h;
     h2 \<leftarrow> free_list list h1;
     Some (snd (pthread_setspecific t None h2))
   }"

definition create_pthread_key :: "'a mdc_heap_scheme \<Rightarrow> 'a mdc_heap_scheme option" where
  "create_pthread_key h = (if key_create_ec h \<noteq> 0 then None else Some (h\<lparr>key_created := True\<rparr>))"

definition mdclog_internal_init_mdc :: "'a mdc_heap_scheme \<Rightarrow> (int \<times> 'a mdc_heap_scheme) option" where
  "mdclog_internal_init_mdc h =
     (if once_ec h \<noteq> 0 then Some (- 1, h\<lparr>errno := once_ec h\<rparr>)
      else if key_created h then Some (0, h)
      else do { h1 \<leftarrow> create_pthread_key h; Some (0, h1) })"

definition get_list :: "thread \<Rightarrow> 'a mdc_heap_scheme \<Rightarrow> (addr option \<times> 'a mdc_heap_scheme) option" where
  "get_list t h =
     (if \<not> key_created h then None
      else (case tls h t of
          Some l \<Rightarrow> Some (Some l, h)
        | None \<Rightarrow> (case new_addr h of
              (None, h1) \<Rightarrow> Some (None, h1\<lparr>errno := ENOMEM\<rparr>)
            | (Some a, h1) \<Rightarrow>
                (let h2 = h1\<lparr>lists := (lists h1)(a \<mapsto> \<lparr>mdclist_head = None\<rparr>)\<rparr>;
                     (ec, h3) = pthread_setspecific t (Some a) h2
                 in if ec \<noteq> 0 then Some (None, h3\<lparr>errno := ec\<rparr>) else Some (Some a, h3)))))"

definition escape_and_copy :: "block \<Rightarrow> 'a mdc_heap_scheme \<Rightarrow> (addr option \<times> 'a mdc_heap_scheme) option" where
  "escape_and_copy str h = do {
     len \<leftarrow> mdclog_internal_escaped_size str;
     (case malloc_block len h of
        (None, h1) \<Rightarrow> Some (None, h1)
      | (Some a, h1) \<Rightarrow> do {
          buf \<leftarrow> strs h1 a;
          (_, _, b) \<leftarrow> mdclog_internal_escape buf 0 len str;
          h2 \<leftarrow> store_block a b h1;
          Some (Some a, h2) })
   }"

partial_function (option) search_loop ::
  "block \<Rightarrow> addr option \<Rightarrow> 'a mdc_heap_scheme \<Rightarrow> addr option option" where
  "search_loop key mdc h = (case mdc of
      None \<Rightarrow> Some None
    | Some a \<Rightarrow> do {
        n \<leftarrow> nodes h a;
        k \<leftarrow> cstr key;
        k' \<leftarrow> str_at (mdc_key n) h;
        if k = k' then Some (Some a) else search_loop key (mdc_next n) h })"

definition mdclog_internal_search_mdc ::
  "thread \<Rightarrow> block \<Rightarrow> 'a mdc_heap_scheme \<Rightarrow> (addr option \<times> 'a mdc_heap_scheme) option" where
  "mdclog_internal_search_mdc t key h = do {
     (list, h1) \<leftarrow> get_list t h;
     (case list of
        None \<Rightarrow> Some (None, h1)
      | Some l \<Rightarrow> do { p \<leftarrow> list_head l h1; r \<leftarrow> search_loop key p h1; Some (r, h1) })
   }"

text \<open>The first half of \<open>mdclog_internal_put_mdc\<close>: find the entry or link a new one.\<close>

definition put_entry ::
  "block \<Rightarrow> addr \<Rightarrow> addr option \<Rightarrow> 'a mdc_heap_scheme \<Rightarrow> (addr option \<times> 'a mdc_heap_scheme) option" where
  "put_entry key list mdc h = (case mdc of
      None \<Rightarrow> (case alloc_entry h of
          (None, h1) \<Rightarrow> Some (None, h1\<lparr>errno := ENOMEM\<rparr>)
        | (Some a, h1) \<Rightarrow> do {
            (k, h2) \<leftarrow> strdup key h1;
            h3 \<leftarrow> upd_node a (\<lambda>n. n\<lparr>mdc_key := k\<rparr>) h2;
            h4 \<leftarrow> add_to_list a list h3;
            Some (Some a, h4) })
    | Some a \<Rightarrow> do {
        n \<leftarrow> nodes h a;
        h1 \<leftarrow> free_block (mdc_value n) h;
        Some (Some a, h1) })"

text \<open>The second half: store the escaped value and check that both strings were allocated.\<close>

definition put_value :: "block \<Rightarrow> addr \<Rightarrow> 'a mdc_heap_scheme \<Rightarrow> (int \<times> 'a mdc_heap_scheme) option" where
  "put_value value mdc h = do {
     (v, h1) \<leftarrow> escape_and_copy value h;
     h2 \<leftarrow> upd_node mdc (\<lambda>n. n\<lparr>mdc_value := v\<rparr>) h1;
     n \<leftarrow> nodes h2 mdc;
     if mdc_key n \<noteq> None \<and> mdc_value n \<noteq> None then Some (0, h2)
     else do { h3 \<leftarrow> mdc_destroy mdc h2; Some (- 1, h3\<lparr>errno := ENOMEM\<rparr>) }
   }"

definition mdclog_internal_put_mdc ::
  "thread \<Rightarrow> block \<Rightarrow> block \<Rightarrow> 'a mdc_heap_scheme \<Rightarrow> (int \<times> 'a mdc_heap_scheme) option" where
  "mdclog_internal_put_mdc t key value h = do {
     (list, h1) \<leftarrow> get_list t h;
     (case list of
        None \<Rightarrow> Some (- 1, h1)
      | Some l \<Rightarrow> do {
          (mdc, h2) \<leftarrow> mdclog_internal_search_mdc t key h1;
          (entry, h3) \<leftarrow> put_entry key l mdc h2;
          (case entry of None \<Rightarrow> Some (- 1, h3) | Some a \<Rightarrow> put_value value a h3) })
   }"

definition mdclog_internal_rm_mdc :: "thread \<Rightarrow> block \<Rightarrow> 'a mdc_heap_scheme \<Rightarrow> 'a mdc_heap_scheme option" where
  "mdclog_internal_rm_mdc t key h = do {
     (mdc, h1) \<leftarrow> mdclog_internal_search_mdc t key h;
     (case mdc of
        None \<Rightarrow> Some h1
      | Some a \<Rightarrow> do {
          (list, h2) \<leftarrow> get_list t h1;
          l \<leftarrow> list;
          rm_from_list a l h2 })
   }"

definition mdclog_internal_get_first_mdc :: "thread \<Rightarrow> 'a mdc_heap_scheme \<Rightarrow> (addr option \<times> 'a mdc_heap_scheme) option" where
  "mdclog_internal_get_first_mdc t h = do {
     (list, h1) \<leftarrow> get_list t h;
     (case list of
        None \<Rightarrow> Some (None, h1)
      | Some l \<Rightarrow> do { p \<leftarrow> list_head l h1; Some (p, h1) })
   }"

definition mdclog_internal_get_next_mdc :: "addr option \<Rightarrow> 'a mdc_heap_scheme \<Rightarrow> addr option option" where
  "mdclog_internal_get_next_mdc mdc h = (case mdc of
      None \<Rightarrow> Some None | Some a \<Rightarrow> do { n \<leftarrow> nodes h a; Some (mdc_next n) })"

definition mdclog_internal_get_mdc_val :: "addr option \<Rightarrow> 'a mdc_heap_scheme \<Rightarrow> addr option option" where
  "mdclog_internal_get_mdc_val mdc h = (case mdc of
      None \<Rightarrow> Some None | Some a \<Rightarrow> do { n \<leftarrow> nodes h a; Some (mdc_value n) })"

definition mdclog_internal_get_mdc_key :: "addr option \<Rightarrow> 'a mdc_heap_scheme \<Rightarrow> addr option option" where
  "mdclog_internal_get_mdc_key mdc h = (case mdc of
      None \<Rightarrow> Some None | Some a \<Rightarrow> do { n \<leftarrow> nodes h a; Some (mdc_key n) })"

definition mdclog_internal_clean_mdclist :: "thread \<Rightarrow> 'a mdc_heap_scheme \<Rightarrow> 'a mdc_heap_scheme option" where
  "mdclog_internal_clean_mdclist t h = do { (list, h1) \<leftarrow> get_list t h; empty_list list h1 }"

definition mdclog_internal_destroy_mdclist :: "thread \<Rightarrow> 'a mdc_heap_scheme \<Rightarrow> 'a mdc_heap_scheme option" where
  "mdclog_internal_destroy_mdclist t h = do { (list, h1) \<leftarrow> get_list t h; destroy_list t list h1 }"

end
