(* ===== verification/Json_Format.thy ===== *)
theory Json_Format
  imports Mdc
begin

text \<open>
  The formatter of \<open>src/src/json_format.c\<close>: the five \<open>format_*\<close> functions that write one member
  of the log entry each, \<open>format_log_entry\<close> that strings them together, and the entry point
  \<open>mdclog_internal_format_to_json_str\<close>.

  A function that writes at \<open>&buffer[p]\<close> takes the buffer and \<open>p\<close>. The list of the calling thread
  is read from the heap through the getters of the MDC component, and \<open>format_message\<close> allocates
  and frees its scratch buffer there. What \<open>vsnprintf\<close> makes of the caller's format and arguments
  is the parameter \<open>m\<close>: a text, or an error with what the failed call does to the scratch buffer.
\<close>

section \<open>Constants\<close>

abbreviation IDENTITY_MAX_LENGTH :: nat where
  "IDENTITY_MAX_LENGTH \<equiv> 100"

abbreviation MIN_BUFFER_LENGTH :: nat where
  "MIN_BUFFER_LENGTH \<equiv> 1000"

abbreviation TIMESTAMP_KEY :: string where
  "TIMESTAMP_KEY \<equiv> ''ts''"

abbreviation SEVERITY_KEY :: string where
  "SEVERITY_KEY \<equiv> ''crit''"

abbreviation LOGGER_KEY :: string where
  "LOGGER_KEY \<equiv> ''id''"

abbreviation MESSAGE_KEY :: string where
  "MESSAGE_KEY \<equiv> ''msg''"

abbreviation MDC_KEY :: string where
  "MDC_KEY \<equiv> ''mdc''"

abbreviation TRUNCATED :: string where
  "TRUNCATED \<equiv> ''[truncated]''"

definition MINIMUM_MESSAGE :: string where
  "MINIMUM_MESSAGE = quoted MESSAGE_KEY @ '':'' @ quoted TRUNCATED"

type_synonym severity = nat

abbreviation MDCLOG_ERR :: severity where
  "MDCLOG_ERR \<equiv> 1"

abbreviation MDCLOG_WARN :: severity where
  "MDCLOG_WARN \<equiv> 2"

abbreviation MDCLOG_INFO :: severity where
  "MDCLOG_INFO \<equiv> 3"

abbreviation MDCLOG_DEBUG :: severity where
  "MDCLOG_DEBUG \<equiv> 4"

record timeval =
  tv_sec :: int
  tv_usec :: int

section \<open>The members of a log entry\<close>

text \<open>The common end of the members: \<open>snprintf\<close>, and an empty string when it did not fit.\<close>

definition print_or_clear :: "block \<Rightarrow> nat \<Rightarrow> nat \<Rightarrow> string \<Rightarrow> (nat \<times> block) option" where
  "print_or_clear buffer p len s = do {
     (ret, b) \<leftarrow> snprintf_at buffer p len s;
     if ret < 0 \<or> len \<le> size_of_int ret
     then do { b1 \<leftarrow> wr b p NUL; Some (0, b1) }
     else Some (size_of_int ret, b)
   }"

definition timestamp_ms :: "timeval \<Rightarrow> 64 word" where
  "timestamp_ms tv = word_of_int (tv_sec tv) * 1000 + word_of_int (tv_usec tv) div 1000"

definition format_timestamp :: "block \<Rightarrow> nat \<Rightarrow> nat \<Rightarrow> timeval \<Rightarrow> (nat \<times> block) option" where
  "format_timestamp buffer p len tv =
     print_or_clear buffer p len (quoted TIMESTAMP_KEY @ '':'' @ dec (unat (timestamp_ms tv)))"

definition severity_val :: "severity \<Rightarrow> string option" where
  "severity_val s = (if s = MDCLOG_ERR then Some ''ERROR'' else if s = MDCLOG_WARN then Some ''WARNING''
     else if s = MDCLOG_INFO then Some ''INFO'' else if s = MDCLOG_DEBUG then Some ''DEBUG'' else None)"

definition format_severity :: "block \<Rightarrow> nat \<Rightarrow> nat \<Rightarrow> severity \<Rightarrow> (nat \<times> block) option" where
  "format_severity buffer p len severity = (case severity_val severity of
      None \<Rightarrow> do { b \<leftarrow> wr buffer p NUL; Some (0, b) }
    | Some v \<Rightarrow> print_or_clear buffer p len (quoted SEVERITY_KEY @ '':'' @ quoted v))"

definition format_identity :: "block \<Rightarrow> nat \<Rightarrow> nat \<Rightarrow> block option \<Rightarrow> (nat \<times> block) option" where
  "format_identity buffer p len identity = do {
     s \<leftarrow> (case identity of None \<Rightarrow> Some ''(null)'' | Some b \<Rightarrow> cstr b);
     print_or_clear buffer p len (quoted LOGGER_KEY @ '':'' @ quoted (take IDENTITY_MAX_LENGTH s))
   }"

text \<open>The backward search for the place of \<open>[truncated]\<close>. An index that would pass below the start
  of the window counts as a fault.\<close>

function trunc_loop :: "block \<Rightarrow> nat \<Rightarrow> nat \<Rightarrow> nat \<Rightarrow> nat option" where
  "trunc_loop buffer p len i =
     (if size_sub len 1 \<le> i + length TRUNCATED then
        (if i = 0 then None
         else do {
           c \<leftarrow> rd buffer (p + i - 1);
           (let j = (if c = BACKSLASH \<or> c = QUOTE then i - 1 else i)
            in if j = 0 then None else trunc_loop buffer p len (j - 1))
         })
      else Some i)"
  by pat_completeness auto
termination
  by (relation "measure (\<lambda>(buffer, p, len, i). i)") (auto split: if_splits)

declare trunc_loop.simps [simp del]

text \<open>What \<open>vsnprintf\<close> makes of the format and the arguments of the caller: a text, or an error. The
  standard leaves open what is in the buffer after an error, so that case carries what the failed
  call does to the buffer.\<close>

datatype vmessage = Formatted string | Failed "block \<Rightarrow> block"

definition vsnprintf_tmp :: "block \<Rightarrow> nat \<Rightarrow> vmessage \<Rightarrow> (int \<times> block) option" where
  "vsnprintf_tmp tmp n m = (case m of Formatted s \<Rightarrow> snprintf_at tmp 0 n s | Failed f \<Rightarrow> Some (- 1, f tmp))"

text \<open>The end of \<open>format_message\<close>: the closing quote, after the truncation mark where one is due.\<close>

definition close_message :: "block \<Rightarrow> nat \<Rightarrow> nat \<Rightarrow> nat \<Rightarrow> bool \<Rightarrow> (nat \<times> block) option" where
  "close_message buffer p len total_len truncated =
     (if truncated then do {
        i \<leftarrow> trunc_loop buffer p len total_len;
        (n, b) \<leftarrow> sprintf_at buffer (p + i) (TRUNCATED @ [QUOTE]);
        Some (i + size_of_int n, b)
      } else do {
        (n, b) \<leftarrow> sprintf_at buffer (p + total_len) [QUOTE];
        Some (total_len + size_of_int n, b)
      })"

definition format_message ::
  "block \<Rightarrow> nat \<Rightarrow> nat \<Rightarrow> vmessage \<Rightarrow> 'a heap_scheme \<Rightarrow> (nat \<times> block \<times> 'a heap_scheme) option" where
  "format_message buffer p len m h =
     (if len \<le> length MINIMUM_MESSAGE then do { b \<leftarrow> wr buffer p NUL; Some (0, b, h) }
      else do {
        (msg_start, b) \<leftarrow> snprintf_at buffer p len (quoted MESSAGE_KEY @ '':'' @ [QUOTE]);
        if msg_start < 0 \<or> len \<le> size_of_int msg_start then do { b1 \<leftarrow> wr b p NUL; Some (0, b1, h) }
        else (let start = size_of_int msg_start; n = size_sub len start in
          (case malloc_block n h of
             (None, h1) \<Rightarrow> do { b1 \<leftarrow> wr b p NUL; Some (0, b1, h1) }
           | (Some a, h1) \<Rightarrow> do {
               tmp \<leftarrow> strs h1 a;
               (msg_len, tmp1) \<leftarrow> vsnprintf_tmp tmp n m;
               h2 \<leftarrow> store_block a tmp1 h1;
               (escaped_msg_len, escape_truncated, b1) \<leftarrow> mdclog_internal_escape b (p + start) (size_sub n 1) tmp1;
               h3 \<leftarrow> free_block (Some a) h2;
               (total_len, b2) \<leftarrow> close_message b1 p len (start + escaped_msg_len)
                  (n \<le> size_add (size_of_int msg_len) 1 \<or> escape_truncated);
               Some (total_len, b2, h3) }))
      })"

partial_function (option) format_mdc_loop ::
  "block \<Rightarrow> nat \<Rightarrow> nat \<Rightarrow> addr option \<Rightarrow> nat \<Rightarrow> nat \<Rightarrow> 'a mdc_heap_scheme \<Rightarrow> (nat \<times> nat \<times> block) option" where
  "format_mdc_loop buffer p len mdc offset mdc_count h = (case mdc of
      None \<Rightarrow> Some (offset, mdc_count, buffer)
    | Some _ \<Rightarrow> do {
        kp \<leftarrow> mdclog_internal_get_mdc_key mdc h;
        vp \<leftarrow> mdclog_internal_get_mdc_val mdc h;
        k \<leftarrow> str_at kp h;
        v \<leftarrow> str_at vp h;
        (ret, b) \<leftarrow> snprintf_at buffer (p + offset) (size_sub len offset) (quoted k @ '':'' @ quoted v @ '','');
        if ret < 0 \<or> size_sub len offset \<le> size_of_int ret then Some (offset, mdc_count, b)
        else do {
          offset1 \<leftarrow> int_add offset (size_of_int ret);
          next_mdc \<leftarrow> mdclog_internal_get_next_mdc mdc h;
          format_mdc_loop b p len next_mdc offset1 (mdc_count + 1) h } })"

text \<open>The end of \<open>format_mdc\<close>: the closing brace, in place of the last comma where there is one.\<close>

definition close_mdc :: "block \<Rightarrow> nat \<Rightarrow> nat \<Rightarrow> nat \<Rightarrow> (nat \<times> block) option" where
  "close_mdc buffer p offset mdc_count =
     (let offset = (if 0 < mdc_count then offset - 1 else offset) in do {
        b \<leftarrow> wr buffer (p + offset) CHR ''}'';
        offset1 \<leftarrow> int_add offset 1;
        b1 \<leftarrow> wr b (p + offset1) NUL;
        Some (offset1, b1) })"

definition format_mdc :: "block \<Rightarrow> nat \<Rightarrow> nat \<Rightarrow> addr option \<Rightarrow> 'a mdc_heap_scheme \<Rightarrow> (nat \<times> block) option" where
  "format_mdc buffer p len mdc h = do {
     (ret, b) \<leftarrow> snprintf_at buffer p len (quoted MDC_KEY @ '':{'');
     if ret < 0 \<or> len \<le> size_add (size_of_int ret) 1 then do { b1 \<leftarrow> wr b p NUL; Some (0, b1) }
     else do {
       (offset, mdc_count, b1) \<leftarrow> format_mdc_loop b p len mdc (size_of_int ret) 0 h;
       close_mdc b1 p offset mdc_count
     }
   }"

section \<open>The log entry\<close>

text \<open>The room \<open>format_log_entry\<close> leaves for a member at \<open>offset\<close>.\<close>

definition member_room :: "nat \<Rightarrow> nat \<Rightarrow> nat" where
  "member_room len offset = size_sub (size_sub (size_sub len offset) (length MINIMUM_MESSAGE)) 1"

text \<open>\<open>if (ret > 0) { offset += ret; buffer[offset++] = ','; }\<close>\<close>

definition add_comma :: "nat \<Rightarrow> nat \<Rightarrow> block \<Rightarrow> (nat \<times> block) option" where
  "add_comma offset ret buffer =
     (if 0 < ret then do {
        offset1 \<leftarrow> int_add offset ret;
        b \<leftarrow> wr buffer offset1 CHR '','';
        offset2 \<leftarrow> int_add offset1 1;
        Some (offset2, b)
      } else Some (offset, buffer))"

definition format_log_entry ::
  "block \<Rightarrow> nat \<Rightarrow> timeval \<Rightarrow> block option \<Rightarrow> severity \<Rightarrow> addr option \<Rightarrow> vmessage \<Rightarrow> 'a mdc_heap_scheme
    \<Rightarrow> (int \<times> block \<times> 'a mdc_heap_scheme) option" where
  "format_log_entry buffer len timestamp identity severity mdc m h = do {
     b \<leftarrow> wr buffer 0 CHR ''{'';
     (ret, b) \<leftarrow> format_timestamp b 1 (member_room len 1) timestamp;
     (offset, b) \<leftarrow> add_comma 1 ret b;
     (ret, b) \<leftarrow> format_severity b offset (member_room len offset) severity;
     (offset, b) \<leftarrow> add_comma offset ret b;
     (ret, b) \<leftarrow> format_identity b offset (member_room len offset) identity;
     (offset, b) \<leftarrow> add_comma offset ret b;
     (ret, b) \<leftarrow> format_mdc b offset (member_room len offset) mdc h;
     (offset, b) \<leftarrow> add_comma offset ret b;
     (ret, b, h1) \<leftarrow> format_message b offset (size_sub (size_sub len offset) 1) m h;
     if 0 < ret then do {
       offset \<leftarrow> int_add offset ret;
       b \<leftarrow> wr b offset CHR ''}'';
       offset \<leftarrow> int_add offset 1;
       b \<leftarrow> wr b offset NUL;
       Some (int offset, b, h1)
     } else do { b \<leftarrow> wr b 0 NUL; Some (- 1, b, h1) }
   }"

definition mdclog_internal_format_to_json_str ::
  "block \<Rightarrow> nat \<Rightarrow> timeval \<Rightarrow> block option \<Rightarrow> severity \<Rightarrow> addr option \<Rightarrow> vmessage \<Rightarrow> 'a mdc_heap_scheme
    \<Rightarrow> (int \<times> block \<times> 'a mdc_heap_scheme) option" where
  "mdclog_internal_format_to_json_str buffer len timestamp identity severity mdc m h =
     (if len < MIN_BUFFER_LENGTH then Some (- 1, buffer, h)
      else format_log_entry buffer len timestamp identity severity mdc m h)"

end
