(* ===== verification/Mdclog.thy ===== *)
theory Mdclog
  imports Json_Format
begin

text \<open>
  The public API of \<open>src/src/mdclog.c\<close>: the configuration of the process, the attributes, the
  entry point \<open>mdclog_write\<close> and the calls on the context.

  The heap of the context store is extended with the static variables of the file, the live
  \<open>mdclog_attr_t\<close> objects, the program name and the standard output. The answers of \<open>write\<close> come
  from the environment as a sequence that is consumed call by call. A pointer argument that may be
  NULL is a \<open>block option\<close>. What \<open>gettimeofday\<close> returns, the text \<open>vsnprintf\<close> makes of the message
  and the bytes the stack buffer holds on entry are arguments of \<open>mdclog_write\<close>. Each call runs
  alone here; \<open>Init_Race\<close> takes the initialisation apart for several threads at once.
\<close>

section \<open>State\<close>

record mdclog_configuration =
  init_done :: "8 word"
  log_format_init_done :: "8 word"
  cfg_identity :: "addr option"

record mdclog_attr =
  attr_identity :: "addr option"

text \<open>An answer of \<open>write\<close>: an error code, or the number of bytes it can take.\<close>

datatype write_answer = WFail int | WAccept nat

record mdclog = mdc_heap +
  current_level :: severity
  configuration :: mdclog_configuration
  attrs :: "addr \<Rightarrow> mdclog_attr option"
  progname :: block
  out :: "string list"
  write_answers :: "nat \<Rightarrow> write_answer"
  write_calls :: nat

abbreviation PIPE_BUF :: nat where
  "PIPE_BUF \<equiv> 4096"

abbreviation EINTR :: int where
  "EINTR \<equiv> 4"

abbreviation EAGAIN :: int where
  "EAGAIN \<equiv> 11"

definition set_cfg_identity :: "addr option \<Rightarrow> 'a mdclog_scheme \<Rightarrow> 'a mdclog_scheme" where
  "set_cfg_identity p h = h\<lparr>configuration := (configuration h)\<lparr>cfg_identity := p\<rparr>\<rparr>"

definition set_init_done :: "8 word \<Rightarrow> 'a mdclog_scheme \<Rightarrow> 'a mdclog_scheme" where
  "set_init_done v h = h\<lparr>configuration := (configuration h)\<lparr>init_done := v\<rparr>\<rparr>"

definition set_log_format_init_done :: "8 word \<Rightarrow> 'a mdclog_scheme \<Rightarrow> 'a mdclog_scheme" where
  "set_log_format_init_done v h = h\<lparr>configuration := (configuration h)\<lparr>log_format_init_done := v\<rparr>\<rparr>"

section \<open>Initialisation\<close>

text \<open>The identity when the caller gave none: the program name, escaped where it has to be.\<close>

definition default_identity :: "'a mdclog_scheme \<Rightarrow> 'a mdclog_scheme option" where
  "default_identity h = do {
     (p, h1) \<leftarrow> strdup (progname h) h;
     (case p of
        None \<Rightarrow> Some h1
      | Some a \<Rightarrow> do {
          b \<leftarrow> strs h1 a;
          special \<leftarrow> mdclog_internal_contains_special_characters b;
          if special then do {
            escaped_size \<leftarrow> mdclog_internal_escaped_size b;
            (case malloc_block escaped_size h1 of
               (None, h2) \<Rightarrow> free_block (Some a) (set_cfg_identity None h2)
             | (Some c, h2) \<Rightarrow> do {
                 buf \<leftarrow> strs h2 c;
                 (_, _, e) \<leftarrow> mdclog_internal_escape buf 0 escaped_size b;
                 h3 \<leftarrow> store_block c e (set_cfg_identity (Some c) h2);
                 free_block (Some a) h3 })
          } else Some (set_cfg_identity (Some a) h1) })
   }"

text \<open>The identity of the attributes, when there are attributes with one.\<close>

definition attr_ident :: "addr option \<Rightarrow> 'a mdclog_scheme \<Rightarrow> addr option option" where
  "attr_ident attr h = (case attr of
      None \<Rightarrow> Some None
    | Some a \<Rightarrow> do { x \<leftarrow> attrs h a; Some (attr_identity x) })"

text \<open>The part of \<open>init_library\<close> between the lock and the unlock of \<open>config_mutex\<close>.\<close>

definition init_locked :: "addr option \<Rightarrow> 'a mdclog_scheme \<Rightarrow> 'a mdclog_scheme option" where
  "init_locked attr h = do {
     h1 \<leftarrow> (case cfg_identity (configuration h) of
         None \<Rightarrow> Some h
       | Some a \<Rightarrow> do { h1 \<leftarrow> free_block (Some a) h; Some (set_cfg_identity None h1) });
     identity \<leftarrow> attr_ident attr h1;
     h2 \<leftarrow> (case (attr, identity) of
         (Some a, Some i) \<Rightarrow> Some ((set_cfg_identity (Some i) h1)\<lparr>attrs := (attrs h1)(a \<mapsto> \<lparr>attr_identity = None\<rparr>)\<rparr>)
       | _ \<Rightarrow> default_identity h1);
     Some (set_init_done 1 h2)
   }"

definition init_library :: "addr option \<Rightarrow> 'a mdclog_scheme \<Rightarrow> 'a mdclog_scheme option" where
  "init_library attr h =
     (if init_done (configuration h) \<noteq> 0 then Some h
      else do {
        (_, h1) \<leftarrow> mdclog_internal_init_mdc h;
        init_locked attr h1
      })"

definition mdclog_init :: "addr option \<Rightarrow> 'a mdclog_scheme \<Rightarrow> (int \<times> 'a mdclog_scheme) option" where
  "mdclog_init attr h = do {
     h1 \<leftarrow> init_library attr (set_log_format_init_done 0 (set_init_done 0 h));
     Some (0, h1)
   }"

section \<open>Writing an entry\<close>

definition sys_write :: "string \<Rightarrow> 'a mdclog_scheme \<Rightarrow> int \<times> 'a mdclog_scheme" where
  "sys_write data h =
     (let h1 = h\<lparr>write_calls := Suc (write_calls h)\<rparr> in
      case write_answers h (write_calls h) of
        WFail e \<Rightarrow> (- 1, h1\<lparr>errno := e\<rparr>)
      | WAccept n \<Rightarrow> (int (min n (length data)), h1\<lparr>out := out h1 @ [take n data]\<rparr>))"

text \<open>The condition under which \<open>TEMP_FAILURE_RETRY\<close> tries again: the macro of \<open>system.h\<close>, and the
  one that glibc's \<open>unistd.h\<close> defines under \<open>_GNU_SOURCE\<close>, which the header then keeps. \<open>EWOULDBLOCK\<close> is
  \<open>EAGAIN\<close> on Linux.\<close>

definition retry_system :: "int \<Rightarrow> int \<Rightarrow> bool" where
  "retry_system r e \<longleftrightarrow> r < 0 \<and> (e = EINTR \<or> e = EAGAIN)"

definition retry_glibc :: "int \<Rightarrow> int \<Rightarrow> bool" where
  "retry_glibc r e \<longleftrightarrow> r = - 1 \<and> e = EINTR"

partial_function (option) temp_failure_retry ::
  "(int \<Rightarrow> int \<Rightarrow> bool) \<Rightarrow> string \<Rightarrow> 'a mdclog_scheme \<Rightarrow> (int \<times> 'a mdclog_scheme) option" where
  "temp_failure_retry retry data h =
     (case sys_write data h of (r, h1) \<Rightarrow>
        if retry r (errno h1) then temp_failure_retry retry data h1 else Some (r, h1))"

definition mdclog_write ::
  "(int \<Rightarrow> int \<Rightarrow> bool) \<Rightarrow> thread \<Rightarrow> severity \<Rightarrow> vmessage \<Rightarrow> timeval \<Rightarrow> block \<Rightarrow> 'a mdclog_scheme \<Rightarrow> 'a mdclog_scheme option" where
  "mdclog_write retry t severity m tv buffer h =
     (if current_level h < severity then Some h
      else do {
        h1 \<leftarrow> init_library None h;
        (mdc, h2) \<leftarrow> mdclog_internal_get_first_mdc t h1;
        identity \<leftarrow> (case cfg_identity (configuration h2) of
            None \<Rightarrow> Some None | Some a \<Rightarrow> do { b \<leftarrow> strs h2 a; Some (Some b) });
        (len, b, h3) \<leftarrow> mdclog_internal_format_to_json_str buffer (PIPE_BUF - 1) tv identity severity mdc m h2;
        if 0 < len then do {
          b1 \<leftarrow> wr b (nat len) NEWLINE;
          (_, h4) \<leftarrow> temp_failure_retry retry (take (nat len + 1) b1) h3;
          Some h4
        } else Some h3
      })"

definition mdclog_level_set :: "severity \<Rightarrow> 'a mdclog_scheme \<Rightarrow> 'a mdclog_scheme" where
  "mdclog_level_set level h = h\<lparr>current_level := level\<rparr>"

definition mdclog_level_get :: "'a mdclog_scheme \<Rightarrow> severity" where
  "mdclog_level_get h = current_level h"

section \<open>Attributes\<close>

definition mdclog_attr_init :: "'a mdclog_scheme \<Rightarrow> int \<times> addr option \<times> 'a mdclog_scheme" where
  "mdclog_attr_init h = (case new_addr h of
      (None, h1) \<Rightarrow> (- 1, None, h1\<lparr>errno := ENOMEM\<rparr>)
    | (Some a, h1) \<Rightarrow> (0, Some a, h1\<lparr>attrs := (attrs h1)(a \<mapsto> \<lparr>attr_identity = None\<rparr>)\<rparr>))"

definition mdclog_attr_destroy :: "addr option \<Rightarrow> 'a mdclog_scheme \<Rightarrow> 'a mdclog_scheme option" where
  "mdclog_attr_destroy attr h = (case attr of
      None \<Rightarrow> Some h
    | Some a \<Rightarrow> do {
        x \<leftarrow> attrs h a;
        h1 \<leftarrow> free_block (attr_identity x) h;
        Some (h1\<lparr>attrs := (attrs h1)(a := None)\<rparr>) })"

text \<open>The check of an identity: special characters, or too long.\<close>

definition bad_ident :: "block \<Rightarrow> bool option" where
  "bad_ident identity = do {
     special \<leftarrow> mdclog_internal_contains_special_characters identity;
     if special then Some True
     else do { s \<leftarrow> cstr identity; Some (IDENTITY_MAX_LENGTH < length s) }
   }"

definition mdclog_attr_set_ident :: "addr option \<Rightarrow> block option \<Rightarrow> 'a mdclog_scheme \<Rightarrow> (int \<times> 'a mdclog_scheme) option" where
  "mdclog_attr_set_ident attr identity h = (case (attr, identity) of
      (Some a, Some b) \<Rightarrow> do {
        bad \<leftarrow> bad_ident b;
        if bad then Some (- 1, h\<lparr>errno := EINVAL\<rparr>)
        else do {
          _ \<leftarrow> attrs h a;
          (p, h1) \<leftarrow> strdup b h;
          Some (0, h1\<lparr>attrs := (attrs h1)(a \<mapsto> \<lparr>attr_identity = p\<rparr>)\<rparr>) } }
    | _ \<Rightarrow> Some (- 1, h\<lparr>errno := EINVAL\<rparr>))"

section \<open>The context\<close>

definition mdclog_mdc_add :: "thread \<Rightarrow> block option \<Rightarrow> block option \<Rightarrow> 'a mdclog_scheme \<Rightarrow> (int \<times> 'a mdclog_scheme) option" where
  "mdclog_mdc_add t key value h = (case (key, value) of
      (Some k, Some v) \<Rightarrow> do {
        special \<leftarrow> mdclog_internal_contains_special_characters k;
        if special then Some (- 1, h\<lparr>errno := EINVAL\<rparr>)
        else do { h1 \<leftarrow> init_library None h; mdclog_internal_put_mdc t k v h1 } }
    | _ \<Rightarrow> Some (- 1, h\<lparr>errno := EINVAL\<rparr>))"

definition mdclog_mdc_get :: "thread \<Rightarrow> block option \<Rightarrow> 'a mdclog_scheme \<Rightarrow> (addr option \<times> 'a mdclog_scheme) option" where
  "mdclog_mdc_get t key h = (case key of
      None \<Rightarrow> Some (None, h)
    | Some k \<Rightarrow> do {
        h1 \<leftarrow> init_library None h;
        (mdc, h2) \<leftarrow> mdclog_internal_search_mdc t k h1;
        (case mdc of
           None \<Rightarrow> Some (None, h2)
         | Some _ \<Rightarrow> do { vp \<leftarrow> mdclog_internal_get_mdc_val mdc h2; v \<leftarrow> deref vp h2; strdup v h2 }) })"

definition mdclog_mdc_remove :: "thread \<Rightarrow> block option \<Rightarrow> 'a mdclog_scheme \<Rightarrow> 'a mdclog_scheme option" where
  "mdclog_mdc_remove t key h = (case key of
      None \<Rightarrow> Some h
    | Some k \<Rightarrow> do { h1 \<leftarrow> init_library None h; mdclog_internal_rm_mdc t k h1 })"

definition mdclog_mdc_clean :: "thread \<Rightarrow> 'a mdclog_scheme \<Rightarrow> 'a mdclog_scheme option" where
  "mdclog_mdc_clean t h = do { h1 \<leftarrow> init_library None h; mdclog_internal_clean_mdclist t h1 }"

definition mdclog_lib_clean :: "'a mdclog_scheme \<Rightarrow> 'a mdclog_scheme option" where
  "mdclog_lib_clean h = do {
     h1 \<leftarrow> free_block (cfg_identity (configuration h)) h;
     Some (set_log_format_init_done 0 (set_init_done 0 (set_cfg_identity None h1)))
   }"

end
