(* ===== verification/Mdc_Correct.thy ===== *)
theory Mdc_Correct
  imports Mdc
begin

text \<open>
  Correctness of the MDC store. \<open>mdc_rep h t cs\<close> says that the list of thread \<open>t\<close> in heap \<open>h\<close> is
  a well-formed doubly linked list of the entries \<open>cs\<close>, and \<open>frame\<close> that an operation touched
  nothing but what its thread owns and leaked nothing. Each operation is shown to implement its
  counterpart on association lists (\<open>put_spec\<close>, \<open>rm_spec\<close>, \<open>map_of\<close>).
\<close>

section \<open>The representation of a list\<close>

text \<open>An entry of the list with the addresses of its three blocks.\<close>

record cell =
  c_node :: addr
  c_kaddr :: addr
  c_vaddr :: addr
  c_key :: string
  c_val :: string

fun first_ptr :: "cell list \<Rightarrow> addr option \<Rightarrow> addr option" where
  "first_ptr [] z = z"
| "first_ptr (c # cs) z = Some (c_node c)"

fun last_ptr :: "addr option \<Rightarrow> cell list \<Rightarrow> addr option" where
  "last_ptr q [] = q"
| "last_ptr q (c # cs) = last_ptr (Some (c_node c)) cs"

definition cell_node :: "addr option \<Rightarrow> addr option \<Rightarrow> cell \<Rightarrow> mdc" where
  "cell_node q z c =
     \<lparr>mdc_prev = q, mdc_next = z, mdc_key = Some (c_kaddr c), mdc_value = Some (c_vaddr c)\<rparr>"

text \<open>\<open>seg N S q cs z\<close>: the entries \<open>cs\<close> are linked one after the other, the first one's \<open>prev\<close> is
  \<open>q\<close>, the last one's \<open>next\<close> is \<open>z\<close>.\<close>

fun seg :: "(addr \<Rightarrow> mdc option) \<Rightarrow> (addr \<Rightarrow> block option) \<Rightarrow> addr option \<Rightarrow> cell list \<Rightarrow> addr option \<Rightarrow> bool" where
  "seg N S q [] z \<longleftrightarrow> True"
| "seg N S q (c # cs) z \<longleftrightarrow> N (c_node c) = Some (cell_node q (first_ptr cs z) c) \<and>
     S (c_kaddr c) = Some (cblock (c_key c)) \<and> S (c_vaddr c) = Some (cblock (c_val c)) \<and>
     seg N S (Some (c_node c)) cs z"

definition node_addrs :: "cell list \<Rightarrow> addr set" where
  "node_addrs cs = c_node ` set cs"

definition str_addrs :: "cell list \<Rightarrow> addr set" where
  "str_addrs cs = c_kaddr ` set cs \<union> c_vaddr ` set cs"

definition cells_ok :: "cell list \<Rightarrow> bool" where
  "cells_ok cs \<longleftrightarrow> distinct (map c_node cs) \<and> distinct (map c_kaddr cs @ map c_vaddr cs) \<and>
     distinct (map c_key cs) \<and> (\<forall>c \<in> set cs. NUL \<notin> set (c_key c) \<and> NUL \<notin> set (c_val c))"

definition heap_wf :: "'a mdc_heap_scheme \<Rightarrow> bool" where
  "heap_wf h \<longleftrightarrow> (\<forall>a \<ge> brk h. strs h a = None \<and> nodes h a = None \<and> lists h a = None)"

definition mdc_rep :: "'a mdc_heap_scheme \<Rightarrow> thread \<Rightarrow> cell list \<Rightarrow> bool" where
  "mdc_rep h t cs \<longleftrightarrow> heap_wf h \<and> key_created h \<and> cells_ok cs \<and>
     seg (nodes h) (strs h) None cs None \<and>
     (case tls h t of
        None \<Rightarrow> cs = []
      | Some l \<Rightarrow> lists h l = Some \<lparr>mdclist_head = first_ptr cs None\<rparr>)"

text \<open>The association list an application sees, newest entry first.\<close>

definition pairs :: "cell list \<Rightarrow> (string \<times> string) list" where
  "pairs cs = map (\<lambda>c. (c_key c, c_val c)) cs"

text \<open>What an operation of thread \<open>t\<close> that turns the entries \<open>cs\<close> into \<open>cs'\<close> may change.\<close>

definition frame :: "thread \<Rightarrow> 'a mdc_heap_scheme \<Rightarrow> cell list \<Rightarrow> 'a mdc_heap_scheme \<Rightarrow> cell list \<Rightarrow> bool" where
  "frame t h cs h' cs' \<longleftrightarrow>
     nodes h |` (- node_addrs cs) = nodes h' |` (- node_addrs cs') \<and>
     strs h |` (- str_addrs cs) = strs h' |` (- str_addrs cs') \<and>
     lists h |` (- set_option (tls h t)) = lists h' |` (- set_option (tls h' t)) \<and>
     (\<forall>u. u \<noteq> t \<longrightarrow> tls h' u = tls h u) \<and> key_created h' = key_created h \<and>
     malloc_ok h' = malloc_ok h \<and> setspecific_ec h' = setspecific_ec h \<and> once_ec h' = once_ec h \<and>
     key_create_ec h' = key_create_ec h \<and> brk h \<le> brk h' \<and> mdc_heap.more h' = mdc_heap.more h"

text \<open>An environment that grants every request.\<close>

definition env_ok :: "thread \<Rightarrow> 'a mdc_heap_scheme \<Rightarrow> bool" where
  "env_ok t h \<longleftrightarrow> (\<forall>a. malloc_ok h a) \<and> setspecific_ec h t = 0"

section \<open>The store as association lists\<close>

fun put_spec :: "string \<Rightarrow> string \<Rightarrow> (string \<times> string) list \<Rightarrow> (string \<times> string) list" where
  "put_spec k v ps = (if k \<in> fst ` set ps then map (\<lambda>(k', v'). (k', if k' = k then v else v')) ps
     else (k, v) # ps)"

definition rm_spec :: "string \<Rightarrow> (string \<times> string) list \<Rightarrow> (string \<times> string) list" where
  "rm_spec k ps = filter (\<lambda>(k', v'). k' \<noteq> k) ps"

lemma map_of_replace:
  "map_of (map (\<lambda>(k', v'). (k', if k' = k then v else v')) ps) x =
     (if x = k \<and> k \<in> fst ` set ps then Some v else map_of ps x)"
proof (induction ps)
  case (Cons p ps)
  then show ?case by (cases p; cases "x = k"; cases "fst p = k"; simp)
qed simp

lemma map_of_put_spec: "map_of (put_spec k v ps) = (map_of ps)(k \<mapsto> v)"
  by (simp add: map_of_replace fun_eq_iff)

lemma map_of_rm_spec: "map_of (rm_spec k ps) = (map_of ps)(k := None)"
  by (induction ps) (auto simp: rm_spec_def fun_eq_iff)

lemma rm_spec_absent: "k \<notin> fst ` set ps \<Longrightarrow> rm_spec k ps = ps"
  by (force simp: rm_spec_def intro!: filter_True)

lemma rm_spec_Cons: "rm_spec k ((k', v) # ps) = (if k' = k then rm_spec k ps else (k', v) # rm_spec k ps)"
  by (simp add: rm_spec_def)

lemma rm_spec_append: "rm_spec k (ps @ qs) = rm_spec k ps @ rm_spec k qs"
  by (simp add: rm_spec_def)

lemma keys_put_spec: "fst ` set (put_spec k v ps) = insert k (fst ` set ps)"
  by (auto simp: image_iff split: if_splits) force+

lemma distinct_put_spec: "distinct (map fst ps) \<Longrightarrow> distinct (map fst (put_spec k v ps))"
  by (auto simp: comp_def case_prod_beta image_iff)

section \<open>Segments\<close>

lemma first_ptr_append [simp]: "first_ptr (xs @ ys) z = first_ptr xs (first_ptr ys z)"
  by (cases xs) auto

lemma last_ptr_append [simp]: "last_ptr q (xs @ ys) = last_ptr (last_ptr q xs) ys"
  by (induction xs arbitrary: q) auto

lemma seg_append [simp]:
  "seg N S q (xs @ ys) z \<longleftrightarrow> seg N S q xs (first_ptr ys z) \<and> seg N S (last_ptr q xs) ys z"
  by (induction xs arbitrary: q) auto

lemma node_addrs_simps [simp]:
  "node_addrs [] = {}" "node_addrs (c # cs) = insert (c_node c) (node_addrs cs)"
  "node_addrs (xs @ ys) = node_addrs xs \<union> node_addrs ys"
  by (auto simp: node_addrs_def)

lemma str_addrs_simps [simp]:
  "str_addrs [] = {}" "str_addrs (c # cs) = insert (c_kaddr c) (insert (c_vaddr c) (str_addrs cs))"
  "str_addrs (xs @ ys) = str_addrs xs \<union> str_addrs ys"
  by (auto simp: str_addrs_def)

lemma pairs_simps [simp]:
  "pairs [] = []" "pairs (c # cs) = (c_key c, c_val c) # pairs cs" "pairs (xs @ ys) = pairs xs @ pairs ys"
  by (simp_all add: pairs_def)

lemma seg_cong:
  assumes "\<And>a. a \<in> node_addrs cs \<Longrightarrow> N' a = N a" "\<And>a. a \<in> str_addrs cs \<Longrightarrow> S' a = S a"
  shows "seg N' S' q cs z = seg N S q cs z"
  using assms by (induction cs arbitrary: q) auto

lemma seg_upd_node [simp]: "a \<notin> node_addrs cs \<Longrightarrow> seg (N(a := x)) S q cs z = seg N S q cs z"
  by (rule seg_cong) auto

lemma seg_upd_str [simp]: "a \<notin> str_addrs cs \<Longrightarrow> seg N (S(a := x)) q cs z = seg N S q cs z"
  by (rule seg_cong) auto

lemma seg_live:
  "seg N S q cs z \<Longrightarrow> a \<in> node_addrs cs \<Longrightarrow> N a \<noteq> None"
  "seg N S q cs z \<Longrightarrow> a \<in> str_addrs cs \<Longrightarrow> S a \<noteq> None"
  by (induction cs arbitrary: q) auto

lemma last_ptr_in: "last_ptr q xs = Some p \<Longrightarrow> q = Some p \<and> xs = [] \<or> (\<exists>ys c. xs = ys @ [c] \<and> p = c_node c)"
  by (cases xs rule: rev_cases) auto

lemma first_ptr_in: "first_ptr xs z = Some p \<Longrightarrow> z = Some p \<and> xs = [] \<or> (\<exists>c ys. xs = c # ys \<and> p = c_node c)"
  by (cases xs) auto

lemma heap_wf_fresh:
  "heap_wf h \<Longrightarrow> strs h (brk h) = None" "heap_wf h \<Longrightarrow> nodes h (brk h) = None" "heap_wf h \<Longrightarrow> lists h (brk h) = None"
  by (auto simp: heap_wf_def)

lemma mdc_rep_below:
  assumes "mdc_rep h t cs"
  shows "a \<in> node_addrs cs \<Longrightarrow> a < brk h" "a \<in> str_addrs cs \<Longrightarrow> a < brk h" "tls h t = Some l \<Longrightarrow> l < brk h"
proof -
  show "a \<in> node_addrs cs \<Longrightarrow> a < brk h" "a \<in> str_addrs cs \<Longrightarrow> a < brk h"
    using assms seg_live [of "nodes h" "strs h" None cs None a]
    by (force simp: mdc_rep_def heap_wf_def not_le [symmetric])+
  show "tls h t = Some l \<Longrightarrow> l < brk h"
    using assms by (force simp: mdc_rep_def heap_wf_def not_le [symmetric])
qed

subsection \<open>Frames\<close>

lemma frame_refl: "frame t h cs h cs"
  by (simp add: frame_def)

lemma frame_trans: "frame t h cs h1 cs1 \<Longrightarrow> frame t h1 cs1 h2 cs2 \<Longrightarrow> frame t h cs h2 cs2"
  by (auto simp: frame_def)

text \<open>What another thread owns is as it was.\<close>

lemma frame_other_thread:
  assumes f: "frame t h cs h' cs'" and wf: "heap_wf h'"
    and rep: "mdc_rep h u ds" and "u \<noteq> t"
    and disj: "node_addrs cs \<inter> node_addrs ds = {}" "str_addrs cs \<inter> str_addrs ds = {}"
      "set_option (tls h t) \<inter> set_option (tls h u) = {}"
  shows "mdc_rep h' u ds" and "node_addrs cs' \<inter> node_addrs ds = {}" and "str_addrs cs' \<inter> str_addrs ds = {}"
proof -
  have s: "seg (nodes h) (strs h) None ds None" using rep by (simp add: mdc_rep_def)
  have n: "nodes h' a = nodes h a \<and> a \<notin> node_addrs cs'" if a: "a \<in> node_addrs ds" for a
  proof -
    obtain x where "nodes h a = Some x" using seg_live(1) [OF s a] by auto
    moreover have "a \<notin> node_addrs cs" using disj(1) a by blast
    ultimately show ?thesis using outside_eqD [of "nodes h"] f by (metis frame_def)
  qed
  have b: "strs h' a = strs h a \<and> a \<notin> str_addrs cs'" if a: "a \<in> str_addrs ds" for a
  proof -
    obtain x where "strs h a = Some x" using seg_live(2) [OF s a] by auto
    moreover have "a \<notin> str_addrs cs" using disj(2) a by blast
    ultimately show ?thesis using outside_eqD [of "strs h"] f by (metis frame_def)
  qed
  have "seg (nodes h') (strs h') None ds None" using s n b seg_cong [of ds "nodes h'" "nodes h" "strs h'" "strs h"] by simp
  moreover have "lists h' l = lists h l" if "tls h u = Some l" for l
    using outside_eqD(1) [of "lists h" "set_option (tls h t)" "lists h'" "set_option (tls h' t)" l] f disj(3) rep that
    by (auto simp: frame_def mdc_rep_def)
  ultimately show "mdc_rep h' u ds"
    using rep f wf \<open>u \<noteq> t\<close> by (auto simp: mdc_rep_def frame_def split: option.splits)
  show "node_addrs cs' \<inter> node_addrs ds = {}" "str_addrs cs' \<inter> str_addrs ds = {}" using n b by auto
qed

section \<open>The operations\<close>

lemma mdc_repD:
  assumes "mdc_rep h t cs"
  shows "heap_wf h" "key_created h" "cells_ok cs" "seg (nodes h) (strs h) None cs None"
    "tls h t = Some l \<Longrightarrow> lists h l = Some \<lparr>mdclist_head = first_ptr cs None\<rparr>"
    "tls h t = None \<Longrightarrow> cs = []"
  using assms by (auto simp: mdc_rep_def)

lemma env_ok_frame: "env_ok t h \<Longrightarrow> frame t h cs h' cs' \<Longrightarrow> env_ok t h'"
  by (simp add: env_ok_def frame_def)

lemma heap_wf_brk [simp]:
  "heap_wf h \<Longrightarrow> heap_wf (h\<lparr>brk := Suc (brk h)\<rparr>)"
  by (simp add: heap_wf_def)

subsection \<open>Finding the thread's list\<close>

lemma get_list_present:
  "key_created h \<Longrightarrow> tls h t = Some l \<Longrightarrow> get_list t h = Some (Some l, h)"
  by (simp add: get_list_def)

lemma get_list_ok:
  assumes "mdc_rep h t cs" "env_ok t h"
  shows "\<exists>l h'. get_list t h = Some (Some l, h') \<and> mdc_rep h' t cs \<and> frame t h cs h' cs \<and> tls h' t = Some l"
proof (cases "tls h t")
  case (Some l)
  then show ?thesis using assms get_list_present mdc_repD(2) frame_refl by blast
next
  case None
  define h' where "h' = h\<lparr>brk := Suc (brk h), lists := (lists h)(brk h \<mapsto> \<lparr>mdclist_head = None\<rparr>),
    tls := (tls h)(t := Some (brk h))\<rparr>"
  note rep = mdc_repD [OF assms(1)] heap_wf_fresh [OF mdc_repD(1) [OF assms(1)]]
  have cs: "cs = []" using rep(6) None by simp
  have "get_list t h = Some (Some (brk h), h')"
    using None rep(2) assms(2)
    by (simp add: get_list_def new_addr_def pthread_setspecific_def env_ok_def h'_def)
  moreover have "mdc_rep h' t cs"
    using rep cs by (auto simp: mdc_rep_def h'_def heap_wf_def)
  moreover have "frame t h cs h' cs"
    using None rep(9) by (auto simp: frame_def h'_def restrict_map_def fun_eq_iff)
  ultimately show ?thesis by (auto simp: h'_def)
qed

text \<open>When there is no memory for the list, nothing else happens.\<close>

lemma get_list_no_memory:
  assumes "key_created h" "tls h t = None" "\<not> malloc_ok h (brk h)"
  shows "get_list t h = Some (None, h\<lparr>brk := Suc (brk h), errno := ENOMEM\<rparr>)"
  using assms by (simp add: get_list_def new_addr_def)

subsection \<open>Searching\<close>

declare search_loop.simps [code] empty_loop.simps [code]

lemma search_loop_seg:
  assumes "cstr key = Some k" "seg (nodes h) (strs h) q cs None" "\<forall>c \<in> set cs. NUL \<notin> set (c_key c)"
  shows "search_loop key (first_ptr cs None) h = Some (map_option c_node (find (\<lambda>c. c_key c = k) cs))"
  using assms
proof (induction cs arbitrary: q)
  case Nil
  then show ?case by (simp add: search_loop.simps)
next
  case (Cons c cs)
  then show ?case by (subst search_loop.simps) (auto simp: cell_node_def str_at_def)
qed

lemma search_mdc_present:
  assumes "mdc_rep h t cs" "tls h t = Some l" "cstr key = Some k"
  shows "mdclog_internal_search_mdc t key h = Some (map_option c_node (find (\<lambda>c. c_key c = k) cs), h)"
  using mdc_repD [OF assms(1)] assms(2) search_loop_seg [OF assms(3), of h None cs]
  by (simp add: mdclog_internal_search_mdc_def get_list_present list_head_def cells_ok_def)

lemma find_split: "find P cs = Some c \<Longrightarrow> \<exists>xs ys. cs = xs @ c # ys \<and> P c"
  by (metis find_Some_iff nth_mem split_list)

lemma find_key_None: "find (\<lambda>c. c_key c = k) cs = None \<longleftrightarrow> k \<notin> fst ` set (pairs cs)"
  by (force simp: find_None_iff pairs_def)

subsection \<open>Removing\<close>

lemma cells_ok_split:
  assumes "cells_ok (xs @ c # ys)"
  shows "cells_ok (xs @ ys)" "c_node c \<notin> node_addrs (xs @ ys)"
    "c_kaddr c \<notin> str_addrs (xs @ ys)" "c_vaddr c \<notin> str_addrs (xs @ ys)" "c_kaddr c \<noteq> c_vaddr c"
    "node_addrs xs \<inter> node_addrs ys = {}" "c_key c \<notin> c_key ` set (xs @ ys)"
  using assms by (auto simp: cells_ok_def node_addrs_def str_addrs_def)

lemma seg_set_next:
  assumes "seg N S q (xs @ [c]) z" "c_node c \<notin> node_addrs xs"
  shows "\<exists>n. N (c_node c) = Some n \<and> seg (N(c_node c \<mapsto> n\<lparr>mdc_next := z'\<rparr>)) S q (xs @ [c]) z'"
  using assms by (auto simp: cell_node_def)

lemma seg_set_prev:
  assumes "seg N S q (c # ys) z" "c_node c \<notin> node_addrs ys"
  shows "\<exists>n. N (c_node c) = Some n \<and> seg (N(c_node c \<mapsto> n\<lparr>mdc_prev := q'\<rparr>)) S q' (c # ys) z"
  using assms by (auto simp: cell_node_def)

text \<open>The two pointer updates of \<open>rm_from_list\<close> around an entry.\<close>

definition relink :: "addr option \<Rightarrow> addr option \<Rightarrow> (addr \<Rightarrow> mdc option) \<Rightarrow> addr \<Rightarrow> mdc option" where
  "relink p x N =
     (let N1 = (case p of None \<Rightarrow> N | Some a \<Rightarrow> N(a := map_option (\<lambda>m. m\<lparr>mdc_next := x\<rparr>) (N a)))
      in (case x of None \<Rightarrow> N1 | Some a \<Rightarrow> N1(a := map_option (\<lambda>m. m\<lparr>mdc_prev := p\<rparr>) (N1 a))))"

lemma seg_relink:
  assumes "seg N S None (xs @ c # ys) None" "cells_ok (xs @ c # ys)"
  shows "seg (relink (last_ptr None xs) (first_ptr ys None) N) S None (xs @ ys) None"
proof -
  have d: "distinct (map c_node (xs @ c # ys))" using assms(2) by (simp add: cells_ok_def)
  have x: "seg N S None xs (Some (c_node c))" and y: "seg N S (Some (c_node c)) ys None"
    using assms(1) by auto
  show ?thesis
  proof (cases xs rule: rev_cases; cases ys)
    fix xs' p x ys' assume *: "xs = xs' @ [p]" "ys = x # ys'"
    then show ?thesis using x y d by (auto simp: relink_def cell_node_def Let_def node_addrs_def)
  qed (use x y d in \<open>auto simp: relink_def cell_node_def Let_def node_addrs_def\<close>)
qed

lemma relink_other: "a \<noteq> c_node c \<Longrightarrow> a \<notin> node_addrs (xs @ ys) \<Longrightarrow>
    relink (last_ptr None xs) (first_ptr ys None) N a = N a"
  by (cases xs rule: rev_cases; cases ys) (auto simp: relink_def Let_def)

text \<open>Executing the removal of the entry between \<open>xs\<close> and \<open>ys\<close>.\<close>

definition rm_result :: "addr \<Rightarrow> cell list \<Rightarrow> cell \<Rightarrow> cell list \<Rightarrow> 'a mdc_heap_scheme \<Rightarrow> 'a mdc_heap_scheme" where
  "rm_result l xs c ys h = h\<lparr>lists := (lists h)(l \<mapsto> \<lparr>mdclist_head = first_ptr (xs @ ys) None\<rparr>),
     nodes := (relink (last_ptr None xs) (first_ptr ys None) (nodes h))(c_node c := None),
     strs := (strs h)(c_kaddr c := None, c_vaddr c := None)\<rparr>"

lemma rm_from_list_exec:
  assumes "mdc_rep h t (xs @ c # ys)" "tls h t = Some l"
  shows "rm_from_list (c_node c) l h = Some (rm_result l xs c ys h)"
proof -
  note rep = mdc_repD [OF assms(1)]
  have l: "lists h l = Some \<lparr>mdclist_head = first_ptr xs (Some (c_node c))\<rparr>"
    using rep(5) assms(2) by simp
  have d: "distinct (map c_node (xs @ c # ys))" "c_kaddr c \<noteq> c_vaddr c"
    using rep(3) cells_ok_split(5) [OF rep(3)] by (simp_all add: cells_ok_def)
  have c: "nodes h (c_node c) = Some (cell_node (last_ptr None xs) (first_ptr ys None) c)"
    "strs h (c_kaddr c) = Some (cblock (c_key c))" "strs h (c_vaddr c) = Some (cblock (c_val c))"
    and x: "seg (nodes h) (strs h) None xs (Some (c_node c))" and y: "seg (nodes h) (strs h) (Some (c_node c)) ys None"
    using rep(4) by auto
  note exec = rm_from_list_def rm_result_def upd_list_def upd_node_def mdc_destroy_def relink_def cell_node_def Let_def
  show ?thesis
  proof (cases xs rule: rev_cases)
    case Nil
    then show ?thesis using l c y d by (cases ys) (auto simp: exec)
  next
    case (snoc xs' p)
    have "first_ptr xs (Some (c_node c)) = first_ptr (xs @ ys) None" "first_ptr (xs @ ys) None \<noteq> Some (c_node c)"
      using snoc d(1) by (cases xs'; auto)+
    then show ?thesis using l c x y d snoc by (cases ys) (auto simp: exec fun_upd_idem)
  qed
qed

lemma rm_from_list_ok:
  assumes "mdc_rep h t (xs @ c # ys)" "tls h t = Some l"
  shows "\<exists>h'. rm_from_list (c_node c) l h = Some h' \<and> mdc_rep h' t (xs @ ys) \<and>
    frame t h (xs @ c # ys) h' (xs @ ys) \<and> tls h' t = Some l"
proof -
  note rep = mdc_repD [OF assms(1)] and split = cells_ok_split [OF mdc_repD(3) [OF assms(1)]]
  let ?h = "rm_result l xs c ys h"
  have below: "relink (last_ptr None xs) (first_ptr ys None) (nodes h) a = None" if "brk h \<le> a" for a
    using mdc_rep_below(1) [OF assms(1), of a] relink_other [of a c xs ys "nodes h"] that rep(1)
    by (auto simp: heap_wf_def not_le)
  have "seg (nodes ?h) (strs ?h) None (xs @ ys) None"
    using seg_relink [OF rep(4,3)] split by (simp add: rm_result_def)
  moreover have "heap_wf ?h"
    using rep(1) below mdc_rep_below(3) [OF assms] by (auto simp: rm_result_def heap_wf_def)
  ultimately have "mdc_rep ?h t (xs @ ys)"
    using rep(2) split(1) assms(2) by (simp add: mdc_rep_def) (simp add: rm_result_def)
  moreover have "nodes h |` (- node_addrs (xs @ c # ys)) = nodes ?h |` (- node_addrs (xs @ ys))"
    by (rule outside_eqI) (use split in \<open>auto simp: rm_result_def relink_other\<close>)
  moreover have "strs h |` (- str_addrs (xs @ c # ys)) = strs ?h |` (- str_addrs (xs @ ys))"
    by (rule outside_eqI) (use split in \<open>auto simp: rm_result_def\<close>)
  ultimately have "mdc_rep ?h t (xs @ ys)" "frame t h (xs @ c # ys) ?h (xs @ ys)"
    using assms(2) by (simp_all add: frame_def) (simp_all add: rm_result_def)
  then show ?thesis
    using rm_from_list_exec [OF assms] assms(2) by (auto simp: rm_result_def)
qed

lemma pairs_rm_split:
  assumes "cells_ok (xs @ c # ys)" shows "pairs (xs @ ys) = rm_spec (c_key c) (pairs (xs @ c # ys))"
proof -
  have "c_key c \<notin> fst ` set (pairs xs)" "c_key c \<notin> fst ` set (pairs ys)"
    using cells_ok_split(7) [OF assms] by (auto simp: pairs_def)
  then show ?thesis by (simp add: rm_spec_append rm_spec_Cons rm_spec_absent)
qed

text \<open>Removal by key.\<close>

lemma rm_mdc_ok:
  assumes "mdc_rep h t cs" "env_ok t h" "cstr key = Some k"
  shows "\<exists>h' cs'. mdclog_internal_rm_mdc t key h = Some h' \<and> mdc_rep h' t cs' \<and> frame t h cs h' cs' \<and>
    pairs cs' = rm_spec k (pairs cs)"
proof -
  obtain l h1 where g: "get_list t h = Some (Some l, h1)" "mdc_rep h1 t cs" "frame t h cs h1 cs" "tls h1 t = Some l"
    using get_list_ok [OF assms(1,2)] by blast
  have s: "mdclog_internal_search_mdc t key h = Some (map_option c_node (find (\<lambda>c. c_key c = k) cs), h1)"
    using search_mdc_present [OF g(2,4) assms(3)] g mdc_repD(2) [OF g(2)]
    by (simp add: mdclog_internal_search_mdc_def get_list_present)
  show ?thesis
  proof (cases "find (\<lambda>c. c_key c = k) cs")
    case None
    then have "rm_spec k (pairs cs) = pairs cs" using find_key_None rm_spec_absent by blast
    moreover have "mdclog_internal_rm_mdc t key h = Some h1"
      using s None by (simp add: mdclog_internal_rm_mdc_def)
    ultimately show ?thesis using g(2,3) by metis
  next
    case (Some c)
    obtain xs ys where cs: "cs = xs @ c # ys" "c_key c = k" using find_split [OF Some] by auto
    obtain h' where r: "rm_from_list (c_node c) l h1 = Some h'" "mdc_rep h' t (xs @ ys)"
      "frame t h1 cs h' (xs @ ys)"
      using rm_from_list_ok g(2,4) cs(1) by blast
    have "mdclog_internal_rm_mdc t key h = Some h'"
      using s Some r(1) g(4) mdc_repD(2) [OF g(2)]
      by (simp add: mdclog_internal_rm_mdc_def get_list_present)
    moreover have "pairs (xs @ ys) = rm_spec k (pairs cs)"
      using pairs_rm_split mdc_repD(3) [OF g(2)] cs by blast
    ultimately show ?thesis using r(2) frame_trans [OF g(3) r(3)] by blast
  qed
qed

subsection \<open>Clearing\<close>

lemma empty_loop_ok:
  assumes "mdc_rep h t cs" "tls h t = Some l"
  shows "\<exists>h'. empty_loop l (first_ptr cs None) h = Some h' \<and> mdc_rep h' t [] \<and> frame t h cs h' [] \<and> tls h' t = Some l"
  using assms
proof (induction cs arbitrary: h)
  case Nil
  then show ?case by (auto simp: empty_loop.simps intro: frame_refl)
next
  case (Cons c cs)
  obtain h1 where r: "rm_from_list (c_node c) l h = Some h1" "mdc_rep h1 t cs" "frame t h (c # cs) h1 cs" "tls h1 t = Some l"
    using rm_from_list_ok [of h t "[]" c cs l] Cons.prems by auto
  obtain h' where h': "empty_loop l (first_ptr cs None) h1 = Some h'" "mdc_rep h' t []" "frame t h1 cs h' []" "tls h' t = Some l"
    using Cons.IH [OF r(2,4)] by blast
  have "nodes h (c_node c) = Some (cell_node None (first_ptr cs None) c)"
    using mdc_repD(4) [OF Cons.prems(1)] by simp
  then have "empty_loop l (first_ptr (c # cs) None) h = Some h'"
    using r(1) h'(1) by (subst empty_loop.simps) (simp add: cell_node_def)
  then show ?case using h' frame_trans [OF r(3) h'(3)] by blast
qed

lemma empty_list_ok:
  assumes "mdc_rep h t cs" "tls h t = Some l"
  shows "\<exists>h'. empty_list (Some l) h = Some h' \<and> mdc_rep h' t [] \<and> frame t h cs h' [] \<and> tls h' t = Some l"
  using empty_loop_ok [OF assms] mdc_repD(5) [OF assms] by (simp add: empty_list_def list_head_def)

lemma clean_mdclist_ok:
  assumes "mdc_rep h t cs" "env_ok t h"
  shows "\<exists>h'. mdclog_internal_clean_mdclist t h = Some h' \<and> mdc_rep h' t [] \<and> frame t h cs h' []"
proof -
  obtain l h1 where g: "get_list t h = Some (Some l, h1)" "mdc_rep h1 t cs" "frame t h cs h1 cs" "tls h1 t = Some l"
    using get_list_ok [OF assms] by blast
  obtain h' where e: "empty_list (Some l) h1 = Some h'" "mdc_rep h' t []" "frame t h1 cs h' []"
    using empty_list_ok [OF g(2,4)] by blast
  then show ?thesis using g(1) frame_trans [OF g(3) e(3)] by (simp add: mdclog_internal_clean_mdclist_def)
qed

text \<open>Destroying the list gives back everything the thread owned.\<close>

lemma destroy_list_ok:
  assumes "mdc_rep h t cs" "tls h t = Some l" "setspecific_ec h t = 0"
  shows "\<exists>h'. destroy_list t (Some l) h = Some h' \<and> mdc_rep h' t [] \<and> frame t h cs h' [] \<and> tls h' t = None"
proof -
  obtain h1 where e: "empty_list (Some l) h = Some h1" "mdc_rep h1 t []" "frame t h cs h1 []" "tls h1 t = Some l"
    using empty_list_ok [OF assms(1,2)] by blast
  define h' where "h' = h1\<lparr>lists := (lists h1)(l := None), tls := (tls h1)(t := None)\<rparr>"
  have "setspecific_ec h1 t = 0" using e(3) assms(3) by (simp add: frame_def)
  then have "destroy_list t (Some l) h = Some h'"
    using e(1) mdc_repD(5) [OF e(2,4)]
    by (simp add: destroy_list_def free_list_def pthread_setspecific_def h'_def)
  moreover have "frame t h1 [] h' []"
    using e(4) by (auto simp: frame_def h'_def restrict_map_def fun_eq_iff)
  moreover have "mdc_rep h' t []"
    using mdc_repD [OF e(2)] by (auto simp: mdc_rep_def h'_def heap_wf_def)
  ultimately show ?thesis using frame_trans [OF e(3)] by (auto simp: h'_def)
qed

lemma destroy_mdclist_ok:
  assumes "mdc_rep h t cs" "env_ok t h"
  shows "\<exists>h'. mdclog_internal_destroy_mdclist t h = Some h' \<and> mdc_rep h' t [] \<and> frame t h cs h' [] \<and> tls h' t = None"
proof -
  obtain l h1 where g: "get_list t h = Some (Some l, h1)" "mdc_rep h1 t cs" "frame t h cs h1 cs" "tls h1 t = Some l"
    using get_list_ok [OF assms] by blast
  have "setspecific_ec h1 t = 0" using env_ok_frame [OF assms(2) g(3)] by (simp add: env_ok_def)
  then obtain h' where "destroy_list t (Some l) h1 = Some h'" "mdc_rep h' t []" "frame t h1 cs h' []" "tls h' t = None"
    using destroy_list_ok [OF g(2,4)] by blast
  then show ?thesis using g(1) frame_trans [OF g(3)]
    by (auto simp: mdclog_internal_destroy_mdclist_def)
qed

text \<open>At the end of a thread the value of the key is reset first, and then the destructor is called
  with the old value: it never reads the key, so this makes no difference.\<close>

lemma tls_last:
  fixes h :: "'a mdc_heap_scheme"
  shows "h\<lparr>tls := x, strs := S\<rparr> = h\<lparr>strs := S, tls := x\<rparr>" "h\<lparr>tls := x, nodes := N\<rparr> = h\<lparr>nodes := N, tls := x\<rparr>"
    "h\<lparr>tls := x, lists := L\<rparr> = h\<lparr>lists := L, tls := x\<rparr>"
  by simp_all

lemma heap_tls:
  fixes h :: "'a mdc_heap_scheme"
  shows "free_block p (h\<lparr>tls := x\<rparr>) = map_option (\<lambda>h'. h'\<lparr>tls := x\<rparr>) (free_block p h)"
    "upd_node a f (h\<lparr>tls := x\<rparr>) = map_option (\<lambda>h'. h'\<lparr>tls := x\<rparr>) (upd_node a f h)"
    "upd_list a g (h\<lparr>tls := x\<rparr>) = map_option (\<lambda>h'. h'\<lparr>tls := x\<rparr>) (upd_list a g h)"
  by (cases p; simp add: free_block_def map_option_bind tls_last) (simp_all add: upd_node_def upd_list_def map_option_bind tls_last)

lemma rm_from_list_tls: "rm_from_list a l (h\<lparr>tls := x\<rparr>) = map_option (\<lambda>h'. h'\<lparr>tls := x\<rparr>) (rm_from_list a l h)"
proof -
  have d: "mdc_destroy a (h\<lparr>tls := x\<rparr>) = map_option (\<lambda>h'. h'\<lparr>tls := x\<rparr>) (mdc_destroy a h)" for h :: "'a mdc_heap_scheme"
    by (simp add: mdc_destroy_def heap_tls tls_last map_option_bind bind_map_option)
  have link: "(case p of None \<Rightarrow> Some (h\<lparr>tls := x\<rparr>) | Some q \<Rightarrow> upd_node q f (h\<lparr>tls := x\<rparr>)) =
      map_option (\<lambda>h'. h'\<lparr>tls := x\<rparr>) (case p of None \<Rightarrow> Some h | Some q \<Rightarrow> upd_node q f h)" for p f and h :: "'a mdc_heap_scheme"
    by (cases p) (simp_all add: heap_tls)
  have start: "(if c then upd_list l g (h\<lparr>tls := x\<rparr>) else Some (h\<lparr>tls := x\<rparr>)) =
      map_option (\<lambda>h'. h'\<lparr>tls := x\<rparr>) (if c then upd_list l g h else Some h)" for c g and h :: "'a mdc_heap_scheme"
    by (simp add: heap_tls)
  show ?thesis unfolding rm_from_list_def by (simp add: start link d map_option_bind bind_map_option)
qed

lemma empty_loop_tls:
  assumes "mdc_rep h t cs" "tls h t = Some l"
  shows "empty_loop l (first_ptr cs None) (h\<lparr>tls := x\<rparr>) = map_option (\<lambda>h'. h'\<lparr>tls := x\<rparr>) (empty_loop l (first_ptr cs None) h)"
  using assms
proof (induction cs arbitrary: h)
  case (Cons c cs)
  obtain h1 where r: "rm_from_list (c_node c) l h = Some h1" "mdc_rep h1 t cs" "tls h1 t = Some l"
    using rm_from_list_ok [of h t "[]" c cs l] Cons.prems by auto
  have "nodes h (c_node c) = Some (cell_node None (first_ptr cs None) c)" using mdc_repD(4) [OF Cons.prems(1)] by simp
  then show ?case using r(1) Cons.IH [OF r(2,3)] rm_from_list_tls [of "c_node c" l x h]
    by (subst (1 2) empty_loop.simps) (simp add: cell_node_def)
qed (simp add: empty_loop.simps)

lemma destroy_list_exit:
  assumes "mdc_rep h t cs" "tls h t = Some l" "setspecific_ec h t = 0"
  shows "destroy_list t (Some l) (h\<lparr>tls := (tls h)(t := None)\<rparr>) = destroy_list t (Some l) h"
proof -
  obtain h1 where e: "empty_list (Some l) h = Some h1" "mdc_rep h1 t []" "frame t h cs h1 []" "tls h1 t = Some l"
    using empty_list_ok [OF assms(1,2)] by blast
  have "empty_list (Some l) (h\<lparr>tls := (tls h)(t := None)\<rparr>) = Some (h1\<lparr>tls := (tls h)(t := None)\<rparr>)"
    using e(1) empty_loop_tls [OF assms(1,2)] mdc_repD(5) [OF assms(1,2)] by (simp add: empty_list_def list_head_def)
  moreover have "setspecific_ec h1 t = 0" "(tls h)(t := None) = (tls h1)(t := None)" using e(3) assms(3) by (auto simp: frame_def fun_eq_iff)
  ultimately show ?thesis using e(1) mdc_repD(5) [OF e(2,4)] by (simp add: destroy_list_def free_list_def pthread_setspecific_def)
qed

subsection \<open>Adding\<close>

lemma escape_and_copy_ok:
  assumes "cstr blk = Some s" "length (escape_str s) + 1 < SIZE_MOD" "malloc_ok h (brk h)"
  shows "escape_and_copy blk h =
    Some (Some (brk h), h\<lparr>brk := Suc (brk h), strs := (strs h)(brk h \<mapsto> cblock (escape_str s))\<rparr>)"
proof -
  let ?n = "length (escape_str s) + 1"
  have "mdclog_internal_escape (map (garbage h (brk h)) [0..<?n]) 0 ?n blk =
      Some (length (escape_str s), False, cblock (escape_str s))"
    by (rule escape_exact [OF assms(1,2)]) simp
  then show ?thesis using escaped_size_correct [OF assms(1,2)] assms(3)
    by (simp add: escape_and_copy_def malloc_block_def new_addr_def store_block_def)
qed

lemma escape_and_copy_no_memory:
  assumes "cstr blk = Some s" "\<not> malloc_ok h (brk h)"
  shows "escape_and_copy blk h = Some (None, h\<lparr>brk := Suc (brk h)\<rparr>)"
  using escaped_size_mod [OF assms(1)] assms(2)
  by (simp add: escape_and_copy_def malloc_block_def new_addr_def)

text \<open>A new entry goes in front: the nodes once entry \<open>a\<close> with key pointer \<open>kp\<close> is linked.\<close>

definition link_first :: "addr \<Rightarrow> addr option \<Rightarrow> cell list \<Rightarrow> (addr \<Rightarrow> mdc option) \<Rightarrow> addr \<Rightarrow> mdc option" where
  "link_first a kp cs N = relink (Some a) (first_ptr cs None)
     (N(a \<mapsto> \<lparr>mdc_prev = None, mdc_next = first_ptr cs None, mdc_key = kp, mdc_value = None\<rparr>))"

lemma link_first_new: "a \<notin> node_addrs cs \<Longrightarrow> link_first a kp cs N a =
    Some \<lparr>mdc_prev = None, mdc_next = first_ptr cs None, mdc_key = kp, mdc_value = None\<rparr>"
  by (cases cs) (auto simp: link_first_def relink_def Let_def)

lemma link_first_other: "b \<noteq> a \<Longrightarrow> b \<notin> node_addrs cs \<Longrightarrow> link_first a kp cs N b = N b"
  by (cases cs) (auto simp: link_first_def relink_def Let_def)

lemma link_first_seg:
  assumes "seg N S None cs None" "cells_ok cs" "a \<notin> node_addrs cs"
  shows "seg (link_first a kp cs N) S (Some a) cs None"
proof (cases cs)
  case (Cons c' cs')
  then show ?thesis using assms
    by (auto simp: link_first_def relink_def Let_def cell_node_def node_addrs_def cells_ok_def)
qed simp

text \<open>Linking a new entry, whether or not there was memory for its key.\<close>

lemma put_entry_new_exec:
  assumes rep: "mdc_rep h t cs" "tls h t = Some l" and k: "cstr key = Some k"
    and a: "malloc_ok h a" "a = brk h"
  defines "kp \<equiv> if malloc_ok h (a + 1) then Some (a + 1) else None"
  shows "put_entry key l None h = Some (Some a, h\<lparr>brk := a + 2, nodes := link_first a kp cs (nodes h),
    strs := (if malloc_ok h (a + 1) then (strs h)(a + 1 \<mapsto> cblock k) else strs h),
    lists := (lists h)(l \<mapsto> \<lparr>mdclist_head = Some a\<rparr>)\<rparr>)"
proof -
  note r = mdc_repD [OF rep(1)]
  have l: "lists h l = Some \<lparr>mdclist_head = first_ptr cs None\<rparr>" using r(5) rep(2) by simp
  have "a \<notin> node_addrs cs" using mdc_rep_below(1) [OF rep(1), of a] a(2) by auto
  then show ?thesis using a k l r(4)
    by (cases cs; cases "malloc_ok h (a + 1)") (auto simp: put_entry_def alloc_entry_def new_addr_def upd_node_def
      upd_list_def add_to_list_def link_first_def relink_def Let_def cell_node_def kp_def)
qed

lemma put_new_ok:
  assumes rep: "mdc_rep h t cs" "tls h t = Some l" and ok: "\<forall>a. malloc_ok h a"
    and k: "cstr key = Some k" "k \<notin> c_key ` set cs"
    and v: "cstr value = Some v" "length (escape_str v) + 1 < SIZE_MOD"
  shows "\<exists>h1 a h' cs'. put_entry key l None h = Some (Some a, h1) \<and> put_value value a h1 = Some (0, h') \<and>
    mdc_rep h' t cs' \<and> frame t h cs h' cs' \<and> pairs cs' = (k, escape_str v) # pairs cs"
proof -
  define a where "a = brk h"
  define c where "c = \<lparr>c_node = a, c_kaddr = a + 1, c_vaddr = a + 2, c_key = k, c_val = escape_str v\<rparr>"
  define N where "N = link_first a (Some (a + 1)) cs (nodes h)"
  define h1 where "h1 = h\<lparr>brk := a + 2, nodes := N, strs := (strs h)(a + 1 \<mapsto> cblock k),
    lists := (lists h)(l \<mapsto> \<lparr>mdclist_head = Some a\<rparr>)\<rparr>"
  define h' where "h' = h1\<lparr>brk := a + 3, nodes := N(a \<mapsto> cell_node None (first_ptr cs None) c),
    strs := (strs h1)(a + 2 \<mapsto> cblock (escape_str v))\<rparr>"
  note r = mdc_repD [OF rep(1)] and below = mdc_rep_below [OF rep(1)]
  have fresh: "a \<notin> node_addrs cs" "a + 1 \<notin> str_addrs cs" "a + 2 \<notin> str_addrs cs"
    using below(1) [of a] below(2) [of "a + 1"] below(2) [of "a + 2"] by (auto simp: a_def)
  have e1: "put_entry key l None h = Some (Some a, h1)"
    using put_entry_new_exec [OF rep k(1), of a] ok by (simp add: a_def h1_def N_def)
  have e2: "put_value value a h1 = Some (0, h')"
    using escape_and_copy_ok [OF v, of h1] ok link_first_new [OF fresh(1)]
    by (simp add: put_value_def upd_node_def h1_def h'_def cell_node_def c_def N_def)
  have "seg (nodes h') (strs h') None (c # cs) None"
    using link_first_seg [OF r(4,3) fresh(1)] fresh by (simp add: h'_def h1_def c_def N_def)
  moreover have Nother: "b \<noteq> a \<Longrightarrow> b \<notin> node_addrs cs \<Longrightarrow> N b = nodes h b" for b
    by (simp add: N_def link_first_other)
  moreover have "cells_ok (c # cs)"
    using r(3) k fresh cstr_SomeD [OF k(1)] by (auto simp: cells_ok_def c_def node_addrs_def str_addrs_def)
  moreover have "heap_wf h'"
    unfolding heap_wf_def
  proof (intro allI impI)
    fix b assume "brk h' \<le> b"
    then have b: "a + 3 \<le> b" by (simp add: h'_def)
    then have "N b = nodes h b" using Nother [of b] below(1) [of b] by (auto simp: a_def)
    moreover have "b \<noteq> l" using below(3) [OF rep(2)] b by (simp add: a_def)
    ultimately show "strs h' b = None \<and> nodes h' b = None \<and> lists h' b = None"
      using b r(1) by (simp add: h'_def h1_def heap_wf_def a_def)
  qed
  moreover have "nodes h |` (- node_addrs cs) = nodes h' |` (- node_addrs (c # cs))"
    by (rule outside_eqI) (use Nother heap_wf_fresh [OF r(1)] in \<open>auto simp: h'_def h1_def c_def a_def\<close>)
  moreover have "strs h |` (- str_addrs cs) = strs h' |` (- str_addrs (c # cs))"
    by (rule outside_eqI) (use r(1) in \<open>auto simp: h'_def h1_def c_def a_def heap_wf_def\<close>)
  moreover have "tls h' = tls h" "key_created h' = key_created h" "lists h' = (lists h)(l \<mapsto> \<lparr>mdclist_head = Some a\<rparr>)"
    "malloc_ok h' = malloc_ok h" "setspecific_ec h' = setspecific_ec h" "once_ec h' = once_ec h" "key_create_ec h' = key_create_ec h" "brk h' = brk h + 3"
    "mdc_heap.more h' = mdc_heap.more h" "c_node c = a"
    by (simp_all add: h'_def h1_def c_def a_def)
  ultimately have "mdc_rep h' t (c # cs)" "frame t h cs h' (c # cs)"
    using r(2) rep(2) unfolding mdc_rep_def frame_def by simp_all
  moreover have "pairs (c # cs) = (k, escape_str v) # pairs cs" by (simp add: c_def)
  ultimately show ?thesis using e1 e2 by blast
qed

text \<open>The value of an existing entry is replaced in place.\<close>

lemma seg_set_value:
  assumes "seg N S q (xs @ c # ys) z" "cells_ok (xs @ c # ys)" "w \<notin> str_addrs (xs @ c # ys)"
  shows "seg (N(c_node c \<mapsto> cell_node (last_ptr q xs) (first_ptr ys z) (c\<lparr>c_vaddr := w, c_val := v\<rparr>)))
    (S(c_vaddr c := None, w \<mapsto> cblock v)) q (xs @ c\<lparr>c_vaddr := w, c_val := v\<rparr> # ys) z"
  using assms(1,3) cells_ok_split [OF assms(2)] by (auto simp: cell_node_def)

lemma pairs_put_split:
  assumes "cells_ok (xs @ c # ys)"
  shows "pairs (xs @ c\<lparr>c_vaddr := w, c_val := v\<rparr> # ys) = put_spec (c_key c) v (pairs (xs @ c # ys))"
proof -
  have "\<forall>x \<in> set xs \<union> set ys. c_key x \<noteq> c_key c" using cells_ok_split(7) [OF assms] by (metis imageI set_append)
  then show ?thesis by (auto simp: pairs_def)
qed

lemma put_replace_ok:
  assumes rep: "mdc_rep h t (xs @ c # ys)" "tls h t = Some l" and ok: "\<forall>a. malloc_ok h a"
    and v: "cstr value = Some v" "length (escape_str v) + 1 < SIZE_MOD"
  defines "c' \<equiv> c\<lparr>c_vaddr := brk h, c_val := escape_str v\<rparr>"
  shows "\<exists>h1 h'. put_entry key l (Some (c_node c)) h = Some (Some (c_node c), h1) \<and>
    put_value value (c_node c) h1 = Some (0, h') \<and> mdc_rep h' t (xs @ c' # ys) \<and>
    frame t h (xs @ c # ys) h' (xs @ c' # ys)"
proof -
  note r = mdc_repD [OF rep(1)] and below = mdc_rep_below [OF rep(1)] and split = cells_ok_split [OF mdc_repD(3) [OF rep(1)]]
  define h1 where "h1 = h\<lparr>strs := (strs h)(c_vaddr c := None)\<rparr>"
  define h' where "h' = h1\<lparr>brk := Suc (brk h),
    nodes := (nodes h)(c_node c \<mapsto> cell_node (last_ptr None xs) (first_ptr ys None) c'),
    strs := (strs h)(c_vaddr c := None, brk h \<mapsto> cblock (escape_str v))\<rparr>"
  have fresh: "brk h \<notin> str_addrs (xs @ c # ys)" using below(2) [of "brk h"] by auto
  have c: "nodes h (c_node c) = Some (cell_node (last_ptr None xs) (first_ptr ys None) c)"
    "strs h (c_vaddr c) = Some (cblock (c_val c))" using r(4) by auto
  have e: "put_entry key l (Some (c_node c)) h = Some (Some (c_node c), h1)"
    "put_value value (c_node c) h1 = Some (0, h')"
    using c escape_and_copy_ok [OF v, of h1] ok
    by (simp_all add: put_entry_def put_value_def upd_node_def h1_def h'_def c'_def cell_node_def)
  have "seg (nodes h') (strs h') None (xs @ c' # ys) None"
    using seg_set_value [OF r(4,3) fresh, of "escape_str v"] by (simp add: h'_def h1_def c'_def)
  moreover have "cells_ok (xs @ c' # ys)"
    using r(3) fresh by (auto simp: cells_ok_def c'_def str_addrs_def)
  moreover have "heap_wf h'"
    using r(1) below(1) [of "c_node c"] by (auto simp: heap_wf_def h'_def h1_def)
  moreover have "nodes h |` (- node_addrs (xs @ c # ys)) = nodes h' |` (- node_addrs (xs @ c' # ys))"
    by (rule outside_eqI) (auto simp: h'_def h1_def c'_def)
  moreover have "strs h |` (- str_addrs (xs @ c # ys)) = strs h' |` (- str_addrs (xs @ c' # ys))"
    by (rule outside_eqI) (use heap_wf_fresh [OF r(1)] split fresh in \<open>auto simp: h'_def h1_def c'_def\<close>)
  moreover have "tls h' = tls h" "key_created h' = key_created h" "lists h' = lists h"
    "malloc_ok h' = malloc_ok h" "setspecific_ec h' = setspecific_ec h" "once_ec h' = once_ec h" "key_create_ec h' = key_create_ec h"
    "brk h' = Suc (brk h)" "mdc_heap.more h' = mdc_heap.more h" "c_node c' = c_node c"
    by (simp_all add: h'_def h1_def c'_def)
  ultimately have "mdc_rep h' t (xs @ c' # ys)" "frame t h (xs @ c # ys) h' (xs @ c' # ys)"
    using r(2) r(5) [OF rep(2)] rep(2) unfolding mdc_rep_def frame_def by simp_all
  with e show ?thesis by blast
qed

lemma put_mdc_ok:
  assumes "mdc_rep h t cs" "env_ok t h" "cstr key = Some k" "cstr value = Some v"
    "length (escape_str v) + 1 < SIZE_MOD"
  shows "\<exists>h' cs'. mdclog_internal_put_mdc t key value h = Some (0, h') \<and> mdc_rep h' t cs' \<and>
    frame t h cs h' cs' \<and> pairs cs' = put_spec k (escape_str v) (pairs cs)"
proof -
  obtain l h1 where g: "get_list t h = Some (Some l, h1)" "mdc_rep h1 t cs" "frame t h cs h1 cs" "tls h1 t = Some l"
    using get_list_ok [OF assms(1,2)] by blast
  have ok: "\<forall>a. malloc_ok h1 a" using env_ok_frame [OF assms(2) g(3)] by (simp add: env_ok_def)
  note s = search_mdc_present [OF g(2,4) assms(3)]
  show ?thesis
  proof (cases "find (\<lambda>c. c_key c = k) cs")
    case None
    then have k: "k \<notin> c_key ` set cs" "k \<notin> fst ` set (pairs cs)"
      using find_key_None by (auto simp: find_None_iff)
    obtain h2 a h' cs' where p: "put_entry key l None h1 = Some (Some a, h2)" "put_value value a h2 = Some (0, h')"
      "mdc_rep h' t cs'" "frame t h1 cs h' cs'" "pairs cs' = (k, escape_str v) # pairs cs"
      using put_new_ok [OF g(2,4) ok assms(3) k(1) assms(4,5)] by blast
    have "mdclog_internal_put_mdc t key value h = Some (0, h')"
      using g(1) s None p(1,2) by (simp add: mdclog_internal_put_mdc_def)
    then show ?thesis using p(3,5) frame_trans [OF g(3) p(4)] k(2) by fastforce
  next
    case (Some c)
    obtain xs ys where cs: "cs = xs @ c # ys" "c_key c = k" using find_split [OF Some] by auto
    let ?c = "c\<lparr>c_vaddr := brk h1, c_val := escape_str v\<rparr>"
    obtain h2 h' where p: "put_entry key l (Some (c_node c)) h1 = Some (Some (c_node c), h2)"
      "put_value value (c_node c) h2 = Some (0, h')" "mdc_rep h' t (xs @ ?c # ys)" "frame t h1 cs h' (xs @ ?c # ys)"
      using put_replace_ok [OF _ g(4) ok assms(4,5)] g(2) cs(1) by blast
    have "mdclog_internal_put_mdc t key value h = Some (0, h')"
      using g(1) s Some p(1,2) by (simp add: mdclog_internal_put_mdc_def)
    moreover have "pairs (xs @ ?c # ys) = put_spec k (escape_str v) (pairs cs)"
      using pairs_put_split mdc_repD(3) [OF g(2)] cs by blast
    ultimately show ?thesis using p(3) frame_trans [OF g(3) p(4)] by blast
  qed
qed

subsection \<open>When memory runs out\<close>

lemma search_mdc_dangling:
  assumes "key_created h" "tls h t = Some l" "lists h l = Some \<lparr>mdclist_head = Some a\<rparr>" "nodes h a = None"
  shows "mdclog_internal_search_mdc t key h = None"
  using assms by (simp add: mdclog_internal_search_mdc_def get_list_present list_head_def search_loop.simps)

text \<open>No memory for the entry itself: nothing is linked.\<close>

lemma put_mdc_no_entry:
  assumes "mdc_rep h t cs" "tls h t = Some l" "cstr key = Some k" "k \<notin> c_key ` set cs" "\<not> malloc_ok h (brk h)"
  shows "mdclog_internal_put_mdc t key value h = Some (- 1, h\<lparr>brk := Suc (brk h), errno := ENOMEM\<rparr>)"
proof -
  have "find (\<lambda>c. c_key c = k) cs = None" using assms(4) by (auto simp: find_None_iff)
  then show ?thesis using search_mdc_present [OF assms(1-3)] assms(5) get_list_present [OF mdc_repD(2) [OF assms(1)] assms(2)]
    by (simp add: mdclog_internal_put_mdc_def put_entry_def alloc_entry_def new_addr_def)
qed

text \<open>No memory for the key or the value of a new entry: the entry is freed but stays linked.\<close>

lemma put_mdc_dangles:
  assumes rep: "mdc_rep h t cs" "tls h t = Some l" and k: "cstr key = Some k" "k \<notin> c_key ` set cs"
    and v: "cstr value = Some v" "length (escape_str v) + 1 < SIZE_MOD"
    and a: "malloc_ok h a" "a = brk h" "\<not> (malloc_ok h (a + 1) \<and> malloc_ok h (a + 2))"
  shows "\<exists>h'. mdclog_internal_put_mdc t key value h = Some (- 1, h') \<and> errno h' = ENOMEM \<and> key_created h' \<and>
    tls h' t = Some l \<and> lists h' l = Some \<lparr>mdclist_head = Some a\<rparr> \<and> nodes h' a = None"
proof -
  note r = mdc_repD [OF rep(1)]
  have f: "find (\<lambda>c. c_key c = k) cs = None" using k(2) by (auto simp: find_None_iff)
  have fresh: "a \<notin> node_addrs cs" using mdc_rep_below(1) [OF rep(1), of a] a(2) by auto
  obtain h1 where h1: "put_entry key l None h = Some (Some a, h1)" "brk h1 = a + 2" "malloc_ok h1 = malloc_ok h"
    "key_created h1" "tls h1 t = Some l" "lists h1 l = Some \<lparr>mdclist_head = Some a\<rparr>"
    "nodes h1 a = Some \<lparr>mdc_prev = None, mdc_next = first_ptr cs None,
       mdc_key = (if malloc_ok h (a + 1) then Some (a + 1) else None), mdc_value = None\<rparr>"
    "malloc_ok h (a + 1) \<Longrightarrow> strs h1 (a + 1) = Some (cblock k)"
    using put_entry_new_exec [OF rep k(1) a(1,2)] r(2) rep(2) link_first_new [OF fresh] by auto
  have "\<exists>h'. put_value value a h1 = Some (- 1, h') \<and> errno h' = ENOMEM \<and> key_created h' \<and>
    tls h' t = Some l \<and> lists h' l = Some \<lparr>mdclist_head = Some a\<rparr> \<and> nodes h' a = None"
  proof (cases "malloc_ok h (a + 2)")
    case True
    then show ?thesis using h1 a(3) escape_and_copy_ok [OF v, of h1]
      by (simp add: put_value_def upd_node_def mdc_destroy_def)
  next
    case False
    then show ?thesis using h1 escape_and_copy_no_memory [OF v(1), of h1]
      by (auto simp: put_value_def upd_node_def mdc_destroy_def)
  qed
  then show ?thesis
    using h1(1) search_mdc_present [OF rep k(1)] f get_list_present [OF r(2) rep(2)]
    by (simp add: mdclog_internal_put_mdc_def)
qed

end
