(* ===== verification/Mdc_Store.thy ===== *)
theory Mdc_Store
  imports Mdc_Correct
begin

text \<open>
  The contract between the API of the library and its context store, and the store as a whole.

  \<open>simulation\<close> lifts a step-by-step correspondence between a concrete and an abstract state to
  runs. \<open>context_store\<close> is the interface the API relies on: four operations on a state that
  stands for a finite map. Its lemmas hold for every provider; the interpretation \<open>thread_store\<close>
  gives them for the linked list of one thread. The second half puts the lists of all threads into
  one heap and shows that any interleaving of their operations behaves like one map per thread.
\<close>

section \<open>Runs of operations\<close>

primrec crun :: "('l \<Rightarrow> 'c \<Rightarrow> 'c option) \<Rightarrow> 'l list \<Rightarrow> 'c \<Rightarrow> 'c option" where
  "crun step [] c = Some c"
| "crun step (l # ls) c = Option.bind (step l c) (crun step ls)"

locale simulation =
  fixes R :: "'c \<Rightarrow> 'a \<Rightarrow> bool" and cstep :: "'l \<Rightarrow> 'c \<Rightarrow> 'c option" and astep :: "'l \<Rightarrow> 'a \<Rightarrow> 'a"
    and ok :: "'l \<Rightarrow> bool"
  assumes sim_step: "R c a \<Longrightarrow> ok l \<Longrightarrow> \<exists>c'. cstep l c = Some c' \<and> R c' (astep l a)"
begin

lemma sim_run: "R c a \<Longrightarrow> list_all ok ls \<Longrightarrow> \<exists>c'. crun cstep ls c = Some c' \<and> R c' (fold astep ls a)"
proof (induction ls arbitrary: c a)
  case (Cons l ls)
  then obtain c1 where "cstep l c = Some c1" "R c1 (astep l a)" using sim_step by fastforce
  with Cons.IH [of c1 "astep l a"] Cons.prems show ?case by simp
qed simp

end

section \<open>The interface of a context store\<close>

datatype mdc_op = Put string string | Remove string | Clean

locale context_store =
  fixes rep :: "'h \<Rightarrow> (string \<rightharpoonup> string) \<Rightarrow> bool"
    and put :: "string \<Rightarrow> string \<Rightarrow> 'h \<Rightarrow> (int \<times> 'h) option"
    and get :: "string \<Rightarrow> 'h \<Rightarrow> (string option \<times> 'h) option"
    and rm :: "string \<Rightarrow> 'h \<Rightarrow> 'h option"
    and clear :: "'h \<Rightarrow> 'h option"
    and enc :: "string \<Rightarrow> string"
    and valid :: "string \<Rightarrow> bool"
  assumes put_law: "rep h m \<Longrightarrow> valid k \<Longrightarrow> valid v \<Longrightarrow> \<exists>h'. put k v h = Some (0, h') \<and> rep h' (m(k \<mapsto> enc v))"
    and get_law: "rep h m \<Longrightarrow> valid k \<Longrightarrow> \<exists>h'. get k h = Some (m k, h') \<and> rep h' m"
    and rm_law: "rep h m \<Longrightarrow> valid k \<Longrightarrow> \<exists>h'. rm k h = Some h' \<and> rep h' (m(k := None))"
    and clear_law: "rep h m \<Longrightarrow> \<exists>h'. clear h = Some h' \<and> rep h' Map.empty"
begin

lemma get_after_put:
  assumes "rep h m" "valid k" "valid v" "valid k'"
  shows "\<exists>h1 h2. put k v h = Some (0, h1) \<and> get k' h1 = Some (if k' = k then Some (enc v) else m k', h2)"
proof -
  obtain h1 where p: "put k v h = Some (0, h1)" "rep h1 (m(k \<mapsto> enc v))" using put_law [OF assms(1-3)] by blast
  obtain h2 where "get k' h1 = Some ((m(k \<mapsto> enc v)) k', h2)" using get_law [OF p(2) assms(4)] by blast
  with p(1) show ?thesis by simp
qed

lemma get_after_rm:
  assumes "rep h m" "valid k" "valid k'"
  shows "\<exists>h1 h2. rm k h = Some h1 \<and> get k' h1 = Some (if k' = k then None else m k', h2)"
proof -
  obtain h1 where p: "rm k h = Some h1" "rep h1 (m(k := None))" using rm_law [OF assms(1,2)] by blast
  obtain h2 where "get k' h1 = Some ((m(k := None)) k', h2)" using get_law [OF p(2) assms(3)] by blast
  with p(1) show ?thesis by simp
qed

lemma get_after_clear:
  assumes "rep h m" "valid k" shows "\<exists>h1 h2. clear h = Some h1 \<and> get k h1 = Some (None, h2)"
  using clear_law [OF assms(1)] get_law [OF _ assms(2)] by fastforce

end

definition store_step ::
  "(string \<Rightarrow> string \<Rightarrow> 'h \<Rightarrow> (int \<times> 'h) option) \<Rightarrow> (string \<Rightarrow> 'h \<Rightarrow> 'h option) \<Rightarrow> ('h \<Rightarrow> 'h option) \<Rightarrow> mdc_op \<Rightarrow> 'h \<Rightarrow> 'h option" where
  "store_step put rm clear op h =
     (case op of Put k v \<Rightarrow> map_option snd (put k v h) | Remove k \<Rightarrow> rm k h | Clean \<Rightarrow> clear h)"

definition map_step :: "(string \<Rightarrow> string) \<Rightarrow> mdc_op \<Rightarrow> (string \<rightharpoonup> string) \<Rightarrow> (string \<rightharpoonup> string)" where
  "map_step enc op m = (case op of Put k v \<Rightarrow> m(k \<mapsto> enc v) | Remove k \<Rightarrow> m(k := None) | Clean \<Rightarrow> Map.empty)"

definition op_ok :: "(string \<Rightarrow> bool) \<Rightarrow> mdc_op \<Rightarrow> bool" where
  "op_ok valid op = (case op of Put k v \<Rightarrow> valid k \<and> valid v | Remove k \<Rightarrow> valid k | Clean \<Rightarrow> True)"

sublocale context_store \<subseteq> runs: simulation rep "store_step put rm clear" "map_step enc" "op_ok valid"
proof unfold_locales
  fix h m op assume "rep h m" "op_ok valid op"
  then show "\<exists>h'. store_step put rm clear op h = Some h' \<and> rep h' (map_step enc op m)"
    using put_law rm_law clear_law by (cases op) (fastforce simp: store_step_def map_step_def op_ok_def)+
qed

section \<open>The list of a thread as a context store\<close>

text \<open>The lookup \<open>mdclog_mdc_get\<close> makes: the entry, its value and the string behind it.\<close>

definition mdc_lookup :: "thread \<Rightarrow> block \<Rightarrow> 'a mdc_heap_scheme \<Rightarrow> (string option \<times> 'a mdc_heap_scheme) option" where
  "mdc_lookup t key h = do {
     (mdc, h1) \<leftarrow> mdclog_internal_search_mdc t key h;
     (case mdc of
        None \<Rightarrow> Some (None, h1)
      | Some _ \<Rightarrow> do {
          vp \<leftarrow> mdclog_internal_get_mdc_val mdc h1;
          v \<leftarrow> str_at vp h1;
          Some (Some v, h1) }) }"

definition thread_rep :: "thread \<Rightarrow> 'a mdc_heap_scheme \<Rightarrow> (string \<rightharpoonup> string) \<Rightarrow> bool" where
  "thread_rep t h m \<longleftrightarrow> env_ok t h \<and> (\<exists>cs. mdc_rep h t cs \<and> map_of (pairs cs) = m)"

text \<open>A C string that fits into memory when every byte of it is escaped.\<close>

definition c_string :: "string \<Rightarrow> bool" where
  "c_string s \<longleftrightarrow> NUL \<notin> set s \<and> 2 * length s + 1 < SIZE_MOD"

lemma length_escape_str_le: "length (escape_str s) \<le> 2 * length s"
  by (induction s) (auto simp: esc1_length)

lemma c_stringD: "c_string s \<Longrightarrow> cstr (cblock s) = Some s" "c_string s \<Longrightarrow> length (escape_str s) + 1 < SIZE_MOD"
  using length_escape_str_le [of s] by (auto simp: c_string_def)

lemma search_mdc_ok:
  assumes "mdc_rep h t cs" "env_ok t h" "cstr key = Some k"
  shows "\<exists>h'. mdclog_internal_search_mdc t key h = Some (map_option c_node (find (\<lambda>c. c_key c = k) cs), h') \<and>
    mdc_rep h' t cs \<and> frame t h cs h' cs"
proof -
  obtain l h1 where g: "get_list t h = Some (Some l, h1)" "mdc_rep h1 t cs" "frame t h cs h1 cs" "tls h1 t = Some l"
    using get_list_ok [OF assms(1,2)] by blast
  then show ?thesis using search_mdc_present [OF g(2,4) assms(3)] mdc_repD(2) [OF g(2)]
    by (simp add: mdclog_internal_search_mdc_def get_list_present)
qed

lemma find_key_map_of: "map_option c_val (find (\<lambda>c. c_key c = k) cs) = map_of (pairs cs) k"
  by (induction cs) auto

lemma mdc_val_at:
  assumes "mdc_rep h t cs" "find P cs = Some c"
  shows "mdclog_internal_get_mdc_val (Some (c_node c)) h = Some (Some (c_vaddr c))"
    "strs h (c_vaddr c) = Some (cblock (c_val c))" "NUL \<notin> set (c_val c)" "c_vaddr c \<in> str_addrs cs"
proof -
  obtain xs ys where cs: "cs = xs @ c # ys" using find_split [OF assms(2)] by blast
  show "mdclog_internal_get_mdc_val (Some (c_node c)) h = Some (Some (c_vaddr c))"
    "strs h (c_vaddr c) = Some (cblock (c_val c))" "NUL \<notin> set (c_val c)" "c_vaddr c \<in> str_addrs cs"
    using mdc_repD(3,4) [OF assms(1)] cs
    by (auto simp: mdclog_internal_get_mdc_val_def cell_node_def cells_ok_def)
qed

lemma mdc_lookup_ok:
  assumes "mdc_rep h t cs" "env_ok t h" "cstr key = Some k"
  shows "\<exists>h'. mdc_lookup t key h = Some (map_of (pairs cs) k, h') \<and> mdc_rep h' t cs \<and> frame t h cs h' cs"
proof -
  obtain h' where s: "mdclog_internal_search_mdc t key h = Some (map_option c_node (find (\<lambda>c. c_key c = k) cs), h')"
    "mdc_rep h' t cs" "frame t h cs h' cs" using search_mdc_ok [OF assms] by blast
  have "mdc_lookup t key h = Some (map_of (pairs cs) k, h')"
  proof (cases "find (\<lambda>c. c_key c = k) cs")
    case None
    then show ?thesis using s(1) find_key_map_of [of k cs] by (simp add: mdc_lookup_def)
  next
    case (Some c)
    then show ?thesis using s(1) find_key_map_of [of k cs, symmetric] mdc_val_at [OF s(2) Some]
      by (simp add: mdc_lookup_def str_at_def)
  qed
  with s(2,3) show ?thesis by blast
qed

interpretation thread_store: context_store "thread_rep t" "\<lambda>k v. mdclog_internal_put_mdc t (cblock k) (cblock v)"
  "\<lambda>k. mdc_lookup t (cblock k)" "\<lambda>k. mdclog_internal_rm_mdc t (cblock k)" "mdclog_internal_clean_mdclist t"
  escape_str c_string
proof unfold_locales
  fix h :: "'a mdc_heap_scheme" and m k v
  assume "thread_rep t h m"
  then obtain cs where cs: "mdc_rep h t cs" "env_ok t h" "map_of (pairs cs) = m" by (auto simp: thread_rep_def)
  show "\<exists>h'. mdclog_internal_clean_mdclist t h = Some h' \<and> thread_rep t h' Map.empty"
    using clean_mdclist_ok [OF cs(1,2)] env_ok_frame [OF cs(2)] by (force simp: thread_rep_def)
  assume k: "c_string k"
  show "\<exists>h'. mdc_lookup t (cblock k) h = Some (m k, h') \<and> thread_rep t h' m"
    using mdc_lookup_ok [OF cs(1,2) c_stringD(1) [OF k]] env_ok_frame [OF cs(2)] cs(3) by (force simp: thread_rep_def)
  show "\<exists>h'. mdclog_internal_rm_mdc t (cblock k) h = Some h' \<and> thread_rep t h' (m(k := None))"
    using rm_mdc_ok [OF cs(1,2) c_stringD(1) [OF k]] env_ok_frame [OF cs(2)] cs(3) map_of_rm_spec
    unfolding thread_rep_def by metis
  assume v: "c_string v"
  show "\<exists>h'. mdclog_internal_put_mdc t (cblock k) (cblock v) h = Some (0, h') \<and> thread_rep t h' (m(k \<mapsto> escape_str v))"
    using put_mdc_ok [OF cs(1,2) c_stringD(1) [OF k] c_stringD(1,2) [OF v]] env_ok_frame [OF cs(2)] cs(3) map_of_put_spec
    unfolding thread_rep_def by metis
qed

section \<open>All threads\<close>

text \<open>The lists of all threads lie in disjoint parts of the heap.\<close>

definition apart :: "'a mdc_heap_scheme \<Rightarrow> (thread \<Rightarrow> cell list) \<Rightarrow> thread \<Rightarrow> thread \<Rightarrow> bool" where
  "apart h C t u \<longleftrightarrow> node_addrs (C t) \<inter> node_addrs (C u) = {} \<and> str_addrs (C t) \<inter> str_addrs (C u) = {} \<and>
     set_option (tls h t) \<inter> set_option (tls h u) = {}"

definition all_rep :: "'a mdc_heap_scheme \<Rightarrow> (thread \<Rightarrow> cell list) \<Rightarrow> bool" where
  "all_rep h C \<longleftrightarrow> (\<forall>t. env_ok t h \<and> mdc_rep h t (C t)) \<and> (\<forall>t u. t \<noteq> u \<longrightarrow> apart h C t u)"

lemma frame_tls_apart:
  assumes "frame t h cs h' cs'" "mdc_rep h u ds" "u \<noteq> t" "set_option (tls h t) \<inter> set_option (tls h u) = {}"
  shows "set_option (tls h' t) \<inter> set_option (tls h' u) = {}"
proof (cases "tls h u")
  case (Some l)
  then have "lists h l \<noteq> None" "l \<notin> set_option (tls h t)" "tls h' u = Some l"
    using mdc_repD(5) [OF assms(2) Some] assms(1,3,4) by (auto simp: frame_def)
  moreover have "lists h |` (- set_option (tls h t)) = lists h' |` (- set_option (tls h' t))"
    using assms(1) by (simp add: frame_def)
  ultimately show ?thesis using outside_eqD(2) [of "lists h" "set_option (tls h t)" "lists h'" "set_option (tls h' t)" l] by auto
next
  case None
  then show ?thesis using assms(1,3) by (simp add: frame_def)
qed

lemma all_rep_step:
  assumes "all_rep h C" "mdc_rep h' t cs'" "frame t h (C t) h' cs'"
  shows "all_rep h' (C(t := cs'))"
proof -
  have f: "env_ok u h'" for u using assms(1,3) by (auto simp: all_rep_def env_ok_def frame_def)
  have other: "mdc_rep h' u (C u) \<and> node_addrs cs' \<inter> node_addrs (C u) = {} \<and> str_addrs cs' \<inter> str_addrs (C u) = {} \<and>
      set_option (tls h' t) \<inter> set_option (tls h' u) = {}" if "u \<noteq> t" for u
  proof -
    have "mdc_rep h u (C u)" "apart h C t u" using assms(1) that by (auto simp: all_rep_def)
    then show ?thesis
      using frame_other_thread [OF assms(3) mdc_repD(1) [OF assms(2)] _ that] frame_tls_apart [OF assms(3) _ that]
      by (simp add: apart_def)
  qed
  have "tls h' u = tls h u" if "u \<noteq> t" for u using assms(3) that by (simp add: frame_def)
  then have "apart h' (C(t := cs')) u v" if "u \<noteq> v" for u v
    using other [of u] other [of v] that assms(1)
    by (cases "u = t"; cases "v = t") (auto simp: apart_def all_rep_def Int_commute)
  then show ?thesis using f other assms(2) by (simp add: all_rep_def)
qed

text \<open>The heap that stands for one map per thread.\<close>

definition threads_rep :: "'a mdc_heap_scheme \<Rightarrow> (thread \<Rightarrow> string \<rightharpoonup> string) \<Rightarrow> bool" where
  "threads_rep h M \<longleftrightarrow> (\<exists>C. all_rep h C \<and> M = (\<lambda>t. map_of (pairs (C t))))"

text \<open>One operation of one thread.\<close>

definition mdc_step :: "thread \<times> mdc_op \<Rightarrow> 'a mdc_heap_scheme \<Rightarrow> 'a mdc_heap_scheme option" where
  "mdc_step l = store_step (\<lambda>k v. mdclog_internal_put_mdc (fst l) (cblock k) (cblock v))
     (\<lambda>k. mdclog_internal_rm_mdc (fst l) (cblock k)) (mdclog_internal_clean_mdclist (fst l)) (snd l)"

definition maps_step :: "thread \<times> mdc_op \<Rightarrow> (thread \<Rightarrow> string \<rightharpoonup> string) \<Rightarrow> (thread \<Rightarrow> string \<rightharpoonup> string)" where
  "maps_step l M = M(fst l := map_step escape_str (snd l) (M (fst l)))"

lemma mdc_step_ok:
  assumes "mdc_rep h t cs" "env_ok t h" "op_ok c_string op"
  shows "\<exists>h' cs'. mdc_step (t, op) h = Some h' \<and> mdc_rep h' t cs' \<and> frame t h cs h' cs' \<and>
    map_of (pairs cs') = map_step escape_str op (map_of (pairs cs))"
proof (cases op)
  case (Put k v)
  then have v: "c_string k" "c_string v" using assms(3) by (simp_all add: op_ok_def)
  show ?thesis using put_mdc_ok [OF assms(1,2) c_stringD(1) [OF v(1)] c_stringD [OF v(2)]] Put
    by (fastforce simp: mdc_step_def store_step_def map_step_def map_of_put_spec simp del: put_spec.simps)
next
  case (Remove k)
  then have "cstr (cblock k) = Some k" using assms(3) by (simp add: op_ok_def c_stringD)
  then show ?thesis using rm_mdc_ok [OF assms(1,2)] Remove
    by (fastforce simp: mdc_step_def store_step_def map_step_def map_of_rm_spec)
next
  case Clean
  then show ?thesis using clean_mdclist_ok [OF assms(1,2)]
    by (fastforce simp: mdc_step_def store_step_def map_step_def)
qed

interpretation threads: simulation threads_rep mdc_step maps_step "\<lambda>l. op_ok c_string (snd l)"
proof unfold_locales
  fix h :: "'a mdc_heap_scheme" and M and l :: "thread \<times> mdc_op"
  assume "threads_rep h M" "op_ok c_string (snd l)"
  then obtain C t op where C: "all_rep h C" "M = (\<lambda>t. map_of (pairs (C t)))" and l: "l = (t, op)" "op_ok c_string op"
    by (cases l) (auto simp: threads_rep_def)
  obtain h' cs' where s: "mdc_step (t, op) h = Some h'" "mdc_rep h' t cs'" "frame t h (C t) h' cs'"
    "map_of (pairs cs') = map_step escape_str op (map_of (pairs (C t)))"
    using mdc_step_ok [of h t "C t" op] C(1) l(2) by (auto simp: all_rep_def)
  then have "threads_rep h' (maps_step (t, op) M)"
    unfolding threads_rep_def using all_rep_step [OF C(1) s(2,3)] C(2)
    by (intro exI [of _ "C(t := cs')"]) (auto simp: maps_step_def s(4))
  with s(1) l show "\<exists>h'. mdc_step l h = Some h' \<and> threads_rep h' (maps_step l M)" by blast
qed

section \<open>Sample states\<close>

text \<open>A heap where thread 1 has one entry, and no other thread has a list.\<close>

definition sample_cell :: cell where
  "sample_cell = \<lparr>c_node = 1, c_kaddr = 2, c_vaddr = 3, c_key = ''k'', c_val = ''v''\<rparr>"

definition sample_heap :: mdc_heap where
  "sample_heap = \<lparr>strs = [2 \<mapsto> cblock ''k'', 3 \<mapsto> cblock ''v''], brk = 4, malloc_ok = \<lambda>a. True, garbage = \<lambda>a i. NUL, errno = 0,
     nodes = [1 \<mapsto> \<lparr>mdc_prev = None, mdc_next = None, mdc_key = Some 2, mdc_value = Some 3\<rparr>],
     lists = [0 \<mapsto> \<lparr>mdclist_head = Some 1\<rparr>], tls = [1 \<mapsto> 0],
     key_created = True, key_create_ec = 0, once_ec = 0, setspecific_ec = \<lambda>t. 0\<rparr>"

lemma sample_rep: "mdc_rep sample_heap 1 [sample_cell]"
  by (auto simp: mdc_rep_def heap_wf_def sample_heap_def sample_cell_def cells_ok_def cell_node_def)

lemma sample_rep_other: "t \<noteq> 1 \<Longrightarrow> mdc_rep sample_heap t []"
  by (auto simp: mdc_rep_def heap_wf_def sample_heap_def cells_ok_def)

lemma sample_env: "env_ok t sample_heap"
  by (simp add: env_ok_def sample_heap_def)

lemma sample_pairs: "pairs [sample_cell] = [(''k'', ''v'')]"
  by (simp add: sample_cell_def)

lemma sample_threads: "threads_rep sample_heap (\<lambda>t. if t = 1 then [''k'' \<mapsto> ''v''] else Map.empty)"
  unfolding threads_rep_def all_rep_def apart_def
  using sample_rep sample_rep_other sample_env
  by (intro exI [of _ "\<lambda>t. if t = 1 then [sample_cell] else []"])
    (auto simp: sample_heap_def sample_cell_def fun_eq_iff)

lemma sample_c_string: "c_string ''k''" "c_string ''v''" "c_string ''w''"
  by (simp_all add: c_string_def SIZE_MOD_def)

lemma sample_cstr: "cstr ''k'' = None" "cstr (cblock ''k'') = Some ''k''" "cstr (cblock ''v'') = Some ''v''" "cstr (cblock ''w'') = Some ''w''"
  by (simp_all add: cstr_def)

section \<open>Properties\<close>

text \<open>C11: \<open>mdclog_internal_put_mdc\<close> replaces the value of a key that is present in place, and puts a
  new key in front; the value is stored escaped. It keeps the list well formed, frees the old
  value, and touches nothing outside the thread's own list.\<close>

theorem put_mdc_refines:
  assumes "mdc_rep h t cs" "env_ok t h" "cstr key = Some k" "cstr value = Some v" "length (escape_str v) + 1 < SIZE_MOD"
  shows "\<exists>h' cs'. mdclog_internal_put_mdc t key value h = Some (0, h') \<and> mdc_rep h' t cs' \<and>
    frame t h cs h' cs' \<and> pairs cs' = put_spec k (escape_str v) (pairs cs)"
  using assms by (rule put_mdc_ok)

theorem put_mdc_refines_witness:
  "\<exists>h' cs'. mdclog_internal_put_mdc 1 (cblock ''k'') (cblock ''w'') sample_heap = Some (0, h') \<and> mdc_rep h' 1 cs' \<and>
    pairs cs' = [(''k'', ''w'')]"
  using put_mdc_refines [OF sample_rep sample_env sample_cstr(2,4)]
  by (auto simp: sample_cell_def SIZE_MOD_def esc1_def needs_escape_def isprint_def)

text \<open>C24: \<open>mdclog_internal_rm_mdc\<close> removes exactly the entry with the key, releases its three
  allocations, and leaves everything else as it was, also when there is no such entry.\<close>

theorem rm_mdc_refines:
  assumes "mdc_rep h t cs" "env_ok t h" "cstr key = Some k"
  shows "\<exists>h' cs'. mdclog_internal_rm_mdc t key h = Some h' \<and> mdc_rep h' t cs' \<and> frame t h cs h' cs' \<and>
    pairs cs' = rm_spec k (pairs cs)"
  using assms by (rule rm_mdc_ok)

theorem rm_mdc_refines_witness:
  "\<exists>h' cs'. mdclog_internal_rm_mdc 1 (cblock ''k'') sample_heap = Some h' \<and> mdc_rep h' 1 cs' \<and> pairs cs' = []"
  using rm_mdc_refines [OF sample_rep sample_env sample_cstr(2)] by (auto simp: sample_cell_def rm_spec_def)

text \<open>C25: \<open>mdclog_internal_destroy_mdclist\<close> gives back every allocation of the thread's list: what
  is left of the heap is the heap without the entries, strings and list head of the thread.\<close>

theorem destroy_mdclist_releases:
  assumes "mdc_rep h t cs" "env_ok t h"
  shows "\<exists>h'. mdclog_internal_destroy_mdclist t h = Some h' \<and> tls h' t = None \<and> mdc_rep h' t [] \<and>
    nodes h' = nodes h |` (- node_addrs cs) \<and> strs h' = strs h |` (- str_addrs cs) \<and>
    lists h' = lists h |` (- set_option (tls h t))"
proof -
  obtain h' where "mdclog_internal_destroy_mdclist t h = Some h'" "mdc_rep h' t []" "frame t h cs h' []" "tls h' t = None"
    using destroy_mdclist_ok [OF assms] by blast
  then show ?thesis by (simp add: frame_def)
qed

theorem destroy_mdclist_releases_witness:
  "\<exists>h'. mdclog_internal_destroy_mdclist 1 sample_heap = Some h' \<and> nodes h' = Map.empty"
  using destroy_mdclist_releases [OF sample_rep sample_env]
  by (auto simp: sample_heap_def sample_cell_def restrict_map_def fun_eq_iff)

text \<open>C4: any interleaving of put, remove and clean operations of any number of threads runs
  without a fault and leaves each thread with the map that its own operations describe: the
  threads do not see each other's entries.\<close>

theorem threads_isolated:
  assumes "threads_rep h M" "list_all (\<lambda>l. op_ok c_string (snd l)) ls"
  shows "\<exists>h'. crun mdc_step ls h = Some h' \<and> threads_rep h' (fold maps_step ls M)"
  using assms by (rule threads.sim_run)

theorem threads_isolated_witness:
  "\<exists>h'. crun mdc_step [(1, Put ''w'' ''v''), (2, Put ''k'' ''w''), (1, Remove ''k'')] sample_heap = Some h' \<and>
    threads_rep h' ((\<lambda>t. Map.empty)(1 := [''w'' \<mapsto> ''v''], 2 := [''k'' \<mapsto> ''w'']))"
proof -
  have "fold maps_step [(1, Put ''w'' ''v''), (2, Put ''k'' ''w''), (1, Remove ''k'')] (\<lambda>t. if t = 1 then [''k'' \<mapsto> ''v''] else Map.empty)
      = (\<lambda>t. Map.empty)(1 := [''w'' \<mapsto> ''v''], 2 := [''k'' \<mapsto> ''w''])"
    by (auto simp: maps_step_def map_step_def esc1_def needs_escape_def isprint_def fun_eq_iff)
  then show ?thesis
    using threads_isolated [OF sample_threads, of "[(1, Put ''w'' ''v''), (2, Put ''k'' ''w''), (1, Remove ''k'')]"]
    by (simp add: op_ok_def sample_c_string)
qed

text \<open>A lookup after a put finds the new value under that key and the old ones under all
  other keys.\<close>

lemma lookup_after_put:
  assumes "thread_rep t h m" "c_string k" "c_string v" "c_string k'"
  shows "\<exists>h1 h2. mdclog_internal_put_mdc t (cblock k) (cblock v) h = Some (0, h1) \<and>
    mdc_lookup t (cblock k') h1 = Some (if k' = k then Some (escape_str v) else m k', h2)"
  using assms by (rule thread_store.get_after_put)

lemma lookup_after_put_witness:
  "\<exists>h1 h2. mdclog_internal_put_mdc 1 (cblock ''w'') (cblock ''w'') sample_heap = Some (0, h1) \<and>
    mdc_lookup 1 (cblock ''k'') h1 = Some (Some ''v'', h2)"
proof -
  have "thread_rep 1 sample_heap [''k'' \<mapsto> ''v'']"
    using sample_rep sample_env sample_pairs by (force simp: thread_rep_def)
  from lookup_after_put [OF this sample_c_string(3,3,1)] show ?thesis by simp
qed

text \<open>C40: when there is no memory for a new entry, \<open>mdclog_internal_put_mdc\<close> returns -1 with
  \<open>ENOMEM\<close> and changes nothing else.\<close>

theorem put_mdc_no_memory:
  assumes "mdc_rep h t cs" "tls h t = Some l" "cstr key = Some k" "k \<notin> c_key ` set cs" "\<not> malloc_ok h (brk h)"
  shows "mdclog_internal_put_mdc t key value h = Some (- 1, h\<lparr>brk := Suc (brk h), errno := ENOMEM\<rparr>)"
  using assms by (rule put_mdc_no_entry)

theorem put_mdc_no_memory_witness:
  "mdclog_internal_put_mdc 1 (cblock ''w'') (cblock ''v'') (sample_heap\<lparr>malloc_ok := \<lambda>a. False\<rparr>) =
     Some (- 1, sample_heap\<lparr>malloc_ok := \<lambda>a. False, brk := 5, errno := ENOMEM\<rparr>)"
proof -
  have "mdc_rep (sample_heap\<lparr>malloc_ok := \<lambda>a. False\<rparr>) 1 [sample_cell]" using sample_rep by (simp add: mdc_rep_def heap_wf_def split: option.splits)
  from put_mdc_no_memory [OF this _ sample_cstr(4), of 0 "cblock ''v''"] show ?thesis
    by (simp add: sample_heap_def sample_cell_def)
qed

text \<open>C33: when the entry is allocated but its key or its value is not, the call reports
  \<open>ENOMEM\<close> and frees the entry, but leaves it linked as the head of the list: the next lookup of
  the thread reads freed memory.\<close>

theorem put_mdc_leaves_dangling_entry:
  assumes "mdc_rep h t cs" "tls h t = Some l" "cstr key = Some k" "k \<notin> c_key ` set cs"
    "cstr value = Some v" "length (escape_str v) + 1 < SIZE_MOD"
    "malloc_ok h (brk h)" "\<not> (malloc_ok h (brk h + 1) \<and> malloc_ok h (brk h + 2))"
  shows "\<exists>h'. mdclog_internal_put_mdc t key value h = Some (- 1, h') \<and> errno h' = ENOMEM \<and>
    mdclog_internal_search_mdc t key' h' = None"
  using put_mdc_dangles [OF assms(1-7) refl assms(8)] search_mdc_dangling by blast

theorem put_mdc_leaves_dangling_entry_witness:
  "\<exists>h'. mdclog_internal_put_mdc 1 (cblock ''w'') (cblock ''v'') (sample_heap\<lparr>malloc_ok := \<lambda>a. a \<noteq> 6\<rparr>) = Some (- 1, h') \<and>
    mdclog_internal_search_mdc 1 (cblock ''k'') h' = None"
proof -
  have "mdc_rep (sample_heap\<lparr>malloc_ok := \<lambda>a. a \<noteq> 6\<rparr>) 1 [sample_cell]" using sample_rep by (simp add: mdc_rep_def heap_wf_def split: option.splits)
  from put_mdc_leaves_dangling_entry [OF this _ sample_cstr(4) _ sample_cstr(3), of 0 "cblock ''k''"] show ?thesis
    by (auto simp: sample_heap_def sample_cell_def SIZE_MOD_def esc1_def needs_escape_def isprint_def)
qed

text \<open>When \<open>pthread_setspecific\<close> fails, \<open>get_list\<close> reports its error code and the list it
  allocated is reachable from no thread: it is leaked.\<close>

lemma get_list_setspecific_leak:
  assumes "key_created h" "tls h t = None" "malloc_ok h (brk h)" "setspecific_ec h t \<noteq> 0"
  shows "\<exists>h'. get_list t h = Some (None, h') \<and> errno h' = setspecific_ec h t \<and> tls h' = tls h \<and>
    lists h' (brk h) = Some \<lparr>mdclist_head = None\<rparr>"
  using assms by (simp add: get_list_def new_addr_def pthread_setspecific_def Let_def)

lemma get_list_setspecific_leak_witness:
  "\<exists>h'. get_list 2 (sample_heap\<lparr>setspecific_ec := \<lambda>t. ENOMEM\<rparr>) = Some (None, h') \<and> tls h' = [1 \<mapsto> 0]"
  using get_list_setspecific_leak [of "sample_heap\<lparr>setspecific_ec := \<lambda>t. ENOMEM\<rparr>" 2] by (auto simp: sample_heap_def)

end
