(* ===== verification/Json_Format_Correct.thy ===== *)
theory Json_Format_Correct
  imports Json_Format Mdc_Store
begin

text \<open>
  Correctness of the formatter. The specification is the text of a log entry as a function of its
  parts: \<open>ts_member\<close>, \<open>sev_member\<close>, \<open>id_member\<close>, \<open>mdc_member\<close> and \<open>msg_member\<close> give each member
  of the entry in the room it has, and \<open>entry_text\<close> the whole entry. The lemmas show that the
  buffer writers produce exactly these texts, stay inside their buffer and give back the heap they
  were given.
\<close>

section \<open>Specification\<close>

text \<open>A member that does not fit is left out.\<close>

definition clip :: "nat \<Rightarrow> string \<Rightarrow> string" where
  "clip len s = (if length s < len then s else [])"

definition ts_member :: "timeval \<Rightarrow> string" where
  "ts_member tv = quoted TIMESTAMP_KEY @ '':'' @ dec (unat (timestamp_ms tv))"

definition sev_member :: "severity \<Rightarrow> string" where
  "sev_member s = (case severity_val s of None \<Rightarrow> [] | Some v \<Rightarrow> quoted SEVERITY_KEY @ '':'' @ quoted v)"

definition id_member :: "string option \<Rightarrow> string" where
  "id_member i = quoted LOGGER_KEY @ '':'' @
     quoted (take IDENTITY_MAX_LENGTH (case i of None \<Rightarrow> ''(null)'' | Some s \<Rightarrow> s))"

definition mdc_pair :: "string \<times> string \<Rightarrow> string" where
  "mdc_pair kv = quoted (fst kv) @ '':'' @ quoted (snd kv) @ '',''"

text \<open>The entries of the context that fit into \<open>room\<close> bytes.\<close>

fun mdc_fit :: "nat \<Rightarrow> (string \<times> string) list \<Rightarrow> (string \<times> string) list" where
  "mdc_fit room [] = []"
| "mdc_fit room (kv # ps) = (if length (mdc_pair kv) < room
     then kv # mdc_fit (room - length (mdc_pair kv)) ps else [])"

definition mdc_head :: string where
  "mdc_head = quoted MDC_KEY @ '':{''"

definition mdc_member :: "nat \<Rightarrow> (string \<times> string) list \<Rightarrow> string" where
  "mdc_member len ps = (if length mdc_head + 1 < len
     then mdc_head @ butlast (concat (map mdc_pair (mdc_fit (len - length mdc_head) ps))) @ ''}'' else [])"

definition msg_head :: string where
  "msg_head = quoted MESSAGE_KEY @ '':'' @ [QUOTE]"

definition msg_member :: "nat \<Rightarrow> string \<Rightarrow> string" where
  "msg_member len t =
     (if length msg_head + length (escape_str t) + 2 \<le> len then msg_head @ escape_str t @ [QUOTE]
      else msg_head @ fit (len - length MINIMUM_MESSAGE - 1) t @ TRUNCATED @ [QUOTE])"

definition with_comma :: "string \<Rightarrow> string" where
  "with_comma s = (if s = [] then [] else s @ '','')"

text \<open>The room that is left for a member, the NUL byte included.\<close>

definition room :: "nat \<Rightarrow> string \<Rightarrow> nat" where
  "room len acc = len - length acc - 20"

definition entry_head :: "nat \<Rightarrow> timeval \<Rightarrow> string option \<Rightarrow> severity \<Rightarrow> (string \<times> string) list \<Rightarrow> string" where
  "entry_head len tv identity severity ps =
     (let a0 = ''{'';
          a1 = a0 @ with_comma (clip (room len a0) (ts_member tv));
          a2 = a1 @ with_comma (clip (room len a1) (sev_member severity));
          a3 = a2 @ with_comma (clip (room len a2) (id_member identity))
      in a3 @ with_comma (mdc_member (room len a3) ps))"

definition entry_text ::
  "nat \<Rightarrow> timeval \<Rightarrow> string option \<Rightarrow> severity \<Rightarrow> (string \<times> string) list \<Rightarrow> string \<Rightarrow> string" where
  "entry_text len tv identity severity ps t =
     (let a = entry_head len tv identity severity ps in a @ msg_member (len - length a - 1) t @ ''}'')"

section \<open>Members written with snprintf\<close>

lemma MINIMUM_MESSAGE_length [simp]: "length MINIMUM_MESSAGE = 19"
  by (simp add: MINIMUM_MESSAGE_def quoted_def)

lemma msg_head_length [simp]: "length msg_head = 7"
  by (simp add: msg_head_def quoted_def)

lemma mdc_head_length [simp]: "length mdc_head = 7"
  by (simp add: mdc_head_def quoted_def)

lemma clip_length: "length (clip len s) < len \<or> clip len s = []"
  by (simp add: clip_def)

text \<open>Whether or not the text fits, \<open>snprintf\<close> leaves the bytes before it alone and its result
  tells the two cases apart.\<close>

lemma snprintf_either:
  assumes "p + len \<le> e" "e \<le> length b" "len \<le> INT_MAX"
  shows "\<exists>ret b'. snprintf_at b p len s = Some (ret, b') \<and> fills b p e [] b' \<and>
    (if length s < len then ret = int (length s) \<and> fills b p e s b' else ret < 0 \<or> len \<le> size_of_int ret)"
proof (cases "length s < len")
  case True
  then obtain b' where "snprintf_at b p len s = Some (int (length s), b')" "writes_at b p len s b'"
    using snprintf_fits [of p len b s] assms by auto
  then show ?thesis using True writes_at_prefix [of b p len s b'] drop_drop_eq [of "p + len" b' b e] assms
    by (auto simp: fills_def writes_at_def)
next
  case False
  then obtain b' where "snprintf_at b p len s = Some (printf_ret (length s), b')" "length b' = length b"
    "take p b' = take p b" "drop (p + len) b' = drop (p + len) b"
    using snprintf_cut [of p len b s] assms by auto
  then show ?thesis using False drop_drop_eq [of "p + len" b' b e] assms
    by (cases "length s \<le> INT_MAX") (auto simp: printf_ret_def)
qed

lemma fills_cleared: "fills b p e [] b' \<Longrightarrow> p < e \<Longrightarrow> fills b p e [] (b'[p := NUL])"
  by (simp add: fills_def)

lemma print_or_clear_ok:
  assumes "p < e" "p + len \<le> e" "e \<le> length b" "len \<le> INT_MAX"
  shows "\<exists>b'. print_or_clear b p len s = Some (length (clip len s), b') \<and> fills b p e (clip len s) b'"
proof -
  obtain ret b1 where r: "snprintf_at b p len s = Some (ret, b1)" "fills b p e [] b1"
    "if length s < len then ret = int (length s) \<and> fills b p e s b1 else ret < 0 \<or> len \<le> size_of_int ret"
    using snprintf_either [OF assms(2-4)] by blast
  show ?thesis
  proof (cases "length s < len")
    case True
    with r assms(4) show ?thesis by (simp add: print_or_clear_def clip_def)
  next
    case False
    moreover have "p < length b1" using r(2) assms(1,3) by simp
    ultimately show ?thesis using r fills_cleared [OF r(2) assms(1)] by (auto simp: print_or_clear_def clip_def)
  qed
qed

lemma format_timestamp_ok:
  assumes "p < e" "p + len \<le> e" "e \<le> length b" "len \<le> INT_MAX"
  shows "\<exists>b'. format_timestamp b p len tv = Some (length (clip len (ts_member tv)), b') \<and>
    fills b p e (clip len (ts_member tv)) b'"
  unfolding format_timestamp_def ts_member_def by (rule print_or_clear_ok [OF assms])

lemma format_severity_ok:
  assumes "p < e" "p + len \<le> e" "e \<le> length b" "len \<le> INT_MAX"
  shows "\<exists>b'. format_severity b p len s = Some (length (clip len (sev_member s)), b') \<and>
    fills b p e (clip len (sev_member s)) b'"
proof (cases "severity_val s")
  case None
  then show ?thesis using assms(1,3) fills_cleared [of b p e b] by (simp add: format_severity_def sev_member_def clip_def)
next
  case (Some v)
  then show ?thesis using print_or_clear_ok [OF assms, of "quoted SEVERITY_KEY @ '':'' @ quoted v"]
    by (simp add: format_severity_def sev_member_def)
qed

text \<open>The identity pointer and the string it leads to.\<close>

definition ident_str :: "block option \<Rightarrow> string option \<Rightarrow> bool" where
  "ident_str identity i \<longleftrightarrow> (case identity of None \<Rightarrow> i = None | Some b \<Rightarrow> i \<noteq> None \<and> cstr b = i)"

lemma format_identity_ok:
  assumes "p < e" "p + len \<le> e" "e \<le> length b" "len \<le> INT_MAX" "ident_str identity i"
  shows "\<exists>b'. format_identity b p len identity = Some (length (clip len (id_member i)), b') \<and>
    fills b p e (clip len (id_member i)) b'"
  using print_or_clear_ok [OF assms(1-4), of "id_member i"] assms(5)
  by (auto simp: format_identity_def id_member_def ident_str_def split: option.splits)

section \<open>The context\<close>

lemma mdc_pair_pos [simp]: "0 < length (mdc_pair kv)" "mdc_pair kv \<noteq> []"
  by (simp_all add: mdc_pair_def)

lemma mdc_pair_fold: "quoted k @ CHR '':'' # quoted v @ [CHR '','']= mdc_pair (k, v)"
  by (simp add: mdc_pair_def)

lemma mdc_fit_length: "0 < n \<Longrightarrow> length (concat (map mdc_pair (mdc_fit n ps))) < n"
proof (induction n ps rule: mdc_fit.induct)
  case (2 n kv ps)
  then show ?case by (cases "length (mdc_pair kv) < n") auto
qed simp

lemma format_mdc_loop_ok:
  assumes "seg (nodes h) (strs h) q cs None" "\<forall>c \<in> set cs. NUL \<notin> set (c_key c) \<and> NUL \<notin> set (c_val c)"
    "p + len \<le> e" "e \<le> length b" "len \<le> INT_MAX" "offset < len"
  shows "\<exists>b'. format_mdc_loop b p len (first_ptr cs None) offset count h =
      Some (offset + length (concat (map mdc_pair (mdc_fit (len - offset) (pairs cs)))),
        count + length (mdc_fit (len - offset) (pairs cs)), b') \<and>
    fills b (p + offset) e (concat (map mdc_pair (mdc_fit (len - offset) (pairs cs)))) b'"
  using assms
proof (induction cs arbitrary: q b offset count)
  case Nil
  then show ?case by (simp add: format_mdc_loop.simps)
next
  case (Cons c cs)
  let ?e = "mdc_pair (c_key c, c_val c)" and ?n = "len - offset"
  have sub: "size_sub len offset = ?n" using Cons.prems by simp
  have get: "mdclog_internal_get_mdc_key (Some (c_node c)) h = Some (Some (c_kaddr c))"
    "mdclog_internal_get_mdc_val (Some (c_node c)) h = Some (Some (c_vaddr c))"
    "mdclog_internal_get_next_mdc (Some (c_node c)) h = Some (first_ptr cs None)"
    "str_at (Some (c_kaddr c)) h = Some (c_key c)" "str_at (Some (c_vaddr c)) h = Some (c_val c)"
    using Cons.prems(1,2)
    by (simp_all add: mdclog_internal_get_mdc_key_def mdclog_internal_get_mdc_val_def
      mdclog_internal_get_next_mdc_def cell_node_def str_at_def)
  have "p + offset + ?n \<le> e" "?n \<le> INT_MAX" using Cons.prems(3,5,6) by linarith+
  then obtain ret b1 where r: "snprintf_at b (p + offset) ?n ?e = Some (ret, b1)" "fills b (p + offset) e [] b1"
    "if length ?e < ?n then ret = int (length ?e) \<and> fills b (p + offset) e ?e b1
      else ret < 0 \<or> ?n \<le> size_of_int ret"
    using snprintf_either [of "p + offset" ?n e b ?e] Cons.prems(4) by blast
  note unfold = format_mdc_loop.simps [of b p len "Some (c_node c)" offset count h]
  show ?case
  proof (cases "length ?e < ?n")
    case True
    then have o: "int_add offset (length ?e) = Some (offset + length ?e)" "length ?e < SIZE_MOD"
      "offset + length ?e < len" using Cons.prems by auto
    obtain b' where b': "format_mdc_loop b1 p len (first_ptr cs None) (offset + length ?e) (count + 1) h =
        Some (offset + length ?e + length (concat (map mdc_pair (mdc_fit (len - (offset + length ?e)) (pairs cs)))),
          count + 1 + length (mdc_fit (len - (offset + length ?e)) (pairs cs)), b')"
      "fills b1 (p + (offset + length ?e)) e (concat (map mdc_pair (mdc_fit (len - (offset + length ?e)) (pairs cs)))) b'"
      using Cons.IH [of "Some (c_node c)" b1 "offset + length ?e" "count + 1"] Cons.prems r(2) o(3) by auto
    have "format_mdc_loop b p len (first_ptr (c # cs) None) offset count h =
        format_mdc_loop b1 p len (first_ptr cs None) (offset + length ?e) (count + 1) h"
      using unfold get r True o(1,2) sub by (simp add: mdc_pair_fold)
    moreover have "fills b (p + offset) e
        (?e @ concat (map mdc_pair (mdc_fit (len - (offset + length ?e)) (pairs cs)))) b'"
      using fills_append [of b "p + offset" e ?e b1] r True b'(2) by (simp add: add.assoc)
    ultimately show ?thesis using b'(1) True by simp
  next
    case False
    then have "format_mdc_loop b p len (first_ptr (c # cs) None) offset count h = Some (offset, count, b1)"
      using unfold get r sub by (auto simp: mdc_pair_fold)
    with False r show ?thesis by simp
  qed
qed

lemma close_mdc_ok:
  assumes "fills b p e (mdc_head @ concat (map mdc_pair qs)) b2" "e \<le> length b"
    "k = 7 + length (butlast (concat (map mdc_pair qs)))" "p + k + 1 < e" "k + 1 \<le> INT_MAX"
  shows "\<exists>b'. close_mdc b2 p (7 + length (concat (map mdc_pair qs))) (length qs) = Some (k + 1, b') \<and>
    fills b p e (mdc_head @ butlast (concat (map mdc_pair qs)) @ ''}'') b'"
proof -
  let ?E = "concat (map mdc_pair qs)"
  have k: "(if 0 < length qs then 7 + length ?E - 1 else 7 + length ?E) = k" using assms(3) by (cases qs) auto
  have c: "close_mdc b2 p (7 + length ?E) (length qs) = Some (k + 1, b2[p + k := CHR ''}'', p + (k + 1) := NUL])"
    unfolding close_mdc_def k Let_def using assms by (simp add: fills_def)
  have t: "take (p + k) b2 = take p b @ mdc_head @ butlast ?E"
  proof -
    have "take (p + k) b2 = take (p + k) (take (p + length (mdc_head @ ?E)) b2)" using assms(3) by simp
    also have "\<dots> = take p b @ mdc_head @ take (length ?E - 1) ?E" using assms(1-4) by (simp add: fills_def)
    finally show ?thesis by (simp add: butlast_conv_take)
  qed
  have l: "length (mdc_head @ butlast ?E @ ''}'') = k + 1" using assms(3) by simp
  have "fills b p e (mdc_head @ butlast ?E @ ''}'') (b2[p + k := CHR ''}'', p + (k + 1) := NUL])"
    unfolding fills_def l using t assms(1,2,4) take_update_at [of "p + k" b2 "CHR ''}''"]
    by (simp add: fills_def add.assoc)
  with c show ?thesis by blast
qed

lemma format_mdc_ok:
  assumes "mdc_rep h t cs" "p < e" "p + len \<le> e" "e \<le> length b" "len \<le> INT_MAX"
  shows "\<exists>b'. format_mdc b p len (first_ptr cs None) h = Some (length (mdc_member len (pairs cs)), b') \<and>
    fills b p e (mdc_member len (pairs cs)) b'"
proof -
  obtain ret b1 where r: "snprintf_at b p len mdc_head = Some (ret, b1)" "fills b p e [] b1"
    "if 7 < len then ret = 7 \<and> fills b p e mdc_head b1 else ret < 0 \<or> len \<le> size_of_int ret"
    using snprintf_either [OF assms(3-5), of mdc_head] by auto
  have i: "(8::nat) \<le> INT_MAX" by (simp add: INT_MAX_def)
  show ?thesis
  proof (cases "8 < len")
    case False
    have "ret < 0 \<or> len \<le> size_add (size_of_int ret) 1"
    proof (cases "7 < len")
      case True
      then show ?thesis using False r(3) i size_of_int_nat [of 7] size_add_exact [of 7 1] by simp
    next
      case small: False
      have "ret = printf_ret 7" using r(1) assms(3,4) by (auto simp: snprintf_at_def split: if_splits)
      then have "ret = 7" using i by simp
      then show ?thesis using small i size_of_int_nat [of 7] size_add_exact [of 7 1] by simp
    qed
    then show ?thesis using False r assms(2,4) fills_cleared [OF r(2) assms(2)]
      by (auto simp: format_mdc_def mdc_head_def [symmetric] mdc_member_def)
  next
    case True
    let ?E = "concat (map mdc_pair (mdc_fit (len - 7) (pairs cs)))" and ?n = "length (mdc_fit (len - 7) (pairs cs))"
    have ret: "ret = 7" and f1: "fills b p e mdc_head b1" using r(3) True by auto
    obtain b2 where l: "format_mdc_loop b1 p len (first_ptr cs None) 7 0 h = Some (7 + length ?E, ?n, b2)"
      "fills b1 (p + 7) e ?E b2"
      using format_mdc_loop_ok [of h None cs p len e b1 7 0] mdc_repD(3,4) [OF assms(1)] assms(3-5) r(2) True
      by (auto simp: cells_ok_def)
    define k where "k = 7 + length (butlast ?E)"
    have E: "length ?E < len - 7" using mdc_fit_length [of "len - 7"] True by simp
    have f2: "fills b p e (mdc_head @ ?E) b2"
      using fills_append [OF f1] l(2) by simp
    have "p + k + 1 < e" "k + 1 \<le> INT_MAX" using E True assms(3,5) by (auto simp: k_def)
    then obtain b' where "close_mdc b2 p (7 + length ?E) ?n = Some (k + 1, b')"
      "fills b p e (mdc_head @ butlast ?E @ ''}'') b'"
      using close_mdc_ok [OF f2 assms(4) k_def] by blast
    moreover have "format_mdc b p len (first_ptr cs None) h = close_mdc b2 p (7 + length ?E) ?n"
      using r(1) ret l(1) True i size_of_int_nat [of 7] size_add_exact [of 7 1]
      by (simp add: format_mdc_def mdc_head_def [symmetric])
    ultimately show ?thesis using True by (simp add: mdc_member_def k_def)
  qed
qed

section \<open>The message\<close>

lemma fit_snoc_over: "n < length (escape_str (w @ [c])) \<Longrightarrow> fit n (w @ [c]) = fit n w"
proof (induction w arbitrary: n)
  case (Cons a w)
  then show ?case by (cases "length (esc1 a) \<le> n") auto
qed simp

lemma esc1_last: "last (esc1 c) = BACKSLASH \<or> last (esc1 c) = QUOTE \<longleftrightarrow> needs_escape c"
  by (auto simp: esc1_def needs_escape_def)

lemma trunc_loop_stop: "i + length TRUNCATED < size_sub len 1 \<Longrightarrow> trunc_loop b p len i = Some i"
  by (subst trunc_loop.simps) simp

text \<open>The backward search stops in front of an escaped character, never inside of one.\<close>

lemma trunc_loop_ok:
  assumes "take (p + (7 + length (escape_str u))) b = A @ escape_str u" "length A = p + 7" "20 \<le> len" "len < SIZE_MOD"
  shows "trunc_loop b p len (7 + length (escape_str u)) = Some (7 + length (fit (len - 20) u))"
  using assms
proof (induction u rule: rev_induct)
  case Nil
  then show ?case by (auto intro!: trunc_loop_stop)
next
  case (snoc c w)
  let ?L = "7 + length (escape_str (w @ [c]))" and ?W = "7 + length (escape_str w)"
  have len: "size_sub len 1 = len - 1" using snoc.prems(3,4) by simp
  show ?case
  proof (cases "len - 20 < length (escape_str (w @ [c]))")
    case False
    then have "trunc_loop b p len ?L = Some ?L" using snoc.prems(3) len by (intro trunc_loop_stop) auto
    with False show ?thesis using fit_full [of "w @ [c]" "len - 20"] by simp
  next
    case True
    have "length (take (p + ?L) b) = p + ?L" using snoc.prems(1,2) by (simp add: add.assoc)
    then have bound: "p + ?L \<le> length b" by simp
    have L: "?L = ?W + length (esc1 c)" by simp
    have "b ! (p + ?L - 1) = take (p + ?L) b ! (p + ?L - 1)" using esc1_length_pos(1) [of c] by simp
    also have "\<dots> = last (A @ escape_str (w @ [c]))"
      using snoc.prems(1,2) esc1_length_pos(1) [of c] by (simp add: last_conv_nth add.assoc)
    also have "\<dots> = last (esc1 c)" by simp
    finally have rd: "rd b (p + ?L - 1) = Some (last (esc1 c))"
      using bound esc1_length_pos(1) [of c] by (simp add: rd_def del: escape_str_simps)
    have step: "trunc_loop b p len ?L = trunc_loop b p len ?W"
      using True snoc.prems(3) len rd L esc1_last [of c] esc1_length [of c]
      by (subst trunc_loop.simps) (auto simp del: escape_str_simps)
    have "take (p + ?W) b = take (p + ?W) (take (p + ?L) b)" using L by simp
    also have "\<dots> = A @ escape_str w" using snoc.prems(1,2) by (simp add: add.assoc)
    finally show ?thesis using step snoc.IH snoc.prems(2-4) fit_snoc_over [OF True] by simp
  qed
qed

lemma sprintf_writes_at:
  assumes "take (p + length u) b = take p b0 @ u" "length u + length s < len" "p + len \<le> length b"
    "length s \<le> INT_MAX" "length b0 = length b" "drop (p + len) b = drop (p + len) b0"
  shows "\<exists>b'. sprintf_at b (p + length u) s = Some (int (length s), b') \<and> writes_at b0 p len (u @ s) b'"
proof -
  let ?b = "take (p + length u) b @ cblock s @ drop (p + length u + length (cblock s)) b"
  have "sprintf_at b (p + length u) s = Some (int (length s), ?b)" using assms by (intro sprintf_fits) auto
  moreover have "writes_at b (p + length u) (len - length u) s ?b"
    using assms by (intro writes_at_snprintf) auto
  then have "writes_at b0 p len (u @ s) ?b"
    using assms unfolding writes_at_def by (simp add: add.assoc)
  ultimately show ?thesis by blast
qed

lemma close_message_ok:
  assumes "take (p + (7 + length (fit (len - 9) t))) b = take p b0 @ msg_head @ fit (len - 9) t" "19 < len"
    "p + len \<le> length b" "len \<le> INT_MAX" "length b0 = length b" "drop (p + len) b = drop (p + len) b0"
  shows "\<exists>b'. close_message b p len (7 + length (fit (len - 9) t)) (len - 9 < length (escape_str t)) =
      Some (length (msg_member len t), b') \<and> writes_at b0 p len (msg_member len t) b'"
proof (cases "len - 9 < length (escape_str t)")
  case False
  let ?u = "msg_head @ fit (len - 9) t"
  have "fit (len - 9) t = escape_str t" using False by (simp add: fit_full)
  moreover from this have "length ?u + length [QUOTE] < len" using False assms(2) by simp
  then obtain b' where "sprintf_at b (p + length ?u) [QUOTE] = Some (1, b')" "writes_at b0 p len (?u @ [QUOTE]) b'"
    using sprintf_writes_at [of p ?u b b0 "[QUOTE]" len] assms by auto
  ultimately show ?thesis using False assms(2,4) size_of_int_nat [of 1] 
    by (auto simp: close_message_def msg_member_def)
next
  case True
  define u where "u = take (fit_count (len - 9) t) t"
  let ?F = "fit (len - 20) t" and ?E = "TRUNCATED @ [QUOTE]"
  have u: "fit (len - 9) t = escape_str u" and F: "fit (len - 20) u = ?F"
    using fit_count_take [of "len - 9" t] fit_take [of "len - 20" "len - 9" t] by (simp_all add: u_def)
  have tr: "trunc_loop b p len (7 + length (fit (len - 9) t)) = Some (7 + length ?F)"
    using trunc_loop_ok [of p u b "take p b0 @ msg_head" len] assms(1-5) F by (simp add: u)
  obtain G where G: "escape_str u = ?F @ G" using fit_prefix [of u "len - 20"] F by auto
  have "take (p + (7 + length ?F)) b = take (p + (7 + length ?F)) (take (p + (7 + length (escape_str u))) b)"
    using G by simp
  also have "\<dots> = take p b0 @ msg_head @ ?F" using assms(1,3,5) G by (simp add: u)
  finally have "take (p + length (msg_head @ ?F)) b = take p b0 @ msg_head @ ?F" by simp
  moreover have "length (msg_head @ ?F) + length ?E < len" using fit_length [of "len - 20" t] assms(2) by simp
  ultimately obtain b' where b': "sprintf_at b (p + length (msg_head @ ?F)) ?E = Some (int (length ?E), b')"
    "writes_at b0 p len ((msg_head @ ?F) @ ?E) b'"
    using sprintf_writes_at [of p "msg_head @ ?F" b b0 ?E len] assms by (auto simp: INT_MAX_def)
  have "size_of_int (int (length ?E)) = length ?E" by (rule size_of_int_nat) (simp add: SIZE_MOD_def)
  with b' tr True assms(2) show ?thesis by (auto simp: close_message_def msg_member_def)
qed

text \<open>Both tests for truncation together ask whether the escaped text has room.\<close>

lemma message_truncated_iff:
  assumes "19 < len"
  shows "(len - 7 \<le> length t + 1 \<or> len - 9 < length (escape_str (take (len - 8) t))) \<longleftrightarrow> len - 9 < length (escape_str t)"
proof -
  have "length (escape_str t) = length (escape_str (take (len - 8) t)) + length (escape_str (drop (len - 8) t))"
    by (metis append_take_drop_id escape_str_simps(3) length_append)
  then show ?thesis using assms length_escape_str_ge [of t] by (cases "length t \<le> len - 8") (auto, linarith)
qed

lemma cstr_vsnprintf:
  assumes "length tmp = n" "0 < n" "NUL \<notin> set t" "length t \<le> INT_MAX"
  shows "\<exists>tmp'. vsnprintf_tmp tmp n (Formatted t) = Some (int (length t), tmp') \<and> cstr tmp' = Some (take (n - 1) t)"
  using assms by (auto simp: vsnprintf_tmp_def snprintf_at_def intro!: cstr_append_NUL dest: in_set_takeD)

text \<open>Whatever \<open>vsnprintf\<close> leaves in the scratch buffer, as long as it is terminated.\<close>

lemma format_message_gen:
  assumes "19 < len" "p + len \<le> length b" "len \<le> INT_MAX" "malloc_ok h (brk h)" "strs h (brk h) = None"
    "vsnprintf_tmp (map (garbage h (brk h)) [0..<len - 7]) (len - 7) m = Some (ml, tmp)" "cstr tmp = Some (take (len - 8) t)"
    "(len - 7 \<le> size_add (size_of_int ml) 1 \<or> len - 9 < length (escape_str (take (len - 8) t))) = (len - 9 < length (escape_str t))"
  shows "\<exists>b'. format_message b p len m h = Some (length (msg_member len t), b', h\<lparr>brk := Suc (brk h)\<rparr>) \<and>
    writes_at b p len (msg_member len t) b'"
proof -
  let ?n = "len - 7" and ?t = "take (len - 8) t" and ?F = "fit (len - 9) t"
  define h1 where "h1 = h\<lparr>brk := Suc (brk h), strs := (strs h)(brk h \<mapsto> map (garbage h (brk h)) [0..<?n])\<rparr>"
  define h2 where "h2 = h1\<lparr>strs := (strs h1)(brk h \<mapsto> tmp)\<rparr>"
  obtain b1 where b1: "snprintf_at b p len msg_head = Some (7, b1)" "writes_at b p len msg_head b1"
    using snprintf_fits [OF assms(2), of msg_head] assms(1,3) by auto
  have w: "p + 7 + (len - 8) \<le> length b1" "0 < len - 8" "len - 8 < SIZE_MOD"
    using b1(2) assms(1-3) by (auto simp: writes_at_def)
  have FF: "fit (len - 8 - 1) ?t = ?F" using fit_take_prefix [of "len - 9" "len - 8" t] by simp
  obtain b2 where b2: "mdclog_internal_escape b1 (p + 7) (len - 8) tmp =
      Some (length ?F, len - 9 < length (escape_str ?t), b2)" "writes_at b1 (p + 7) (len - 8) ?F b2"
    using escape_correct [OF assms(7) w(2,3,1)] FF by auto
  have sizes: "size_of_int 7 = 7" "size_sub len 7 = ?n" "size_sub ?n 1 = len - 8"
    using assms(1,3) size_of_int_nat [of 7] by (simp_all add: less_SIZE_MOD)
  have heap: "malloc_block ?n h = (Some (brk h), h1)" "strs h1 (brk h) = Some (map (garbage h (brk h)) [0..<?n])"
    "store_block (brk h) tmp h1 = Some h2" "free_block (Some (brk h)) h2 = Some (h\<lparr>brk := Suc (brk h)\<rparr>)"
    using assms(4,5) by (simp_all add: h1_def h2_def malloc_block_def new_addr_def store_block_def fun_upd_idem)
  have m: "take (p + (7 + length ?F)) b2 = take p b @ msg_head @ ?F" "drop (p + len) b2 = drop (p + len) b" "length b2 = length b"
    using b1(2) b2(2) drop_drop_eq [of "p + 7 + (len - 8)" b2 b1 "p + len"] assms(1,2)
    by (auto simp: writes_at_def add.assoc)
  obtain b' where c: "close_message b2 p len (7 + length ?F) (len - 9 < length (escape_str t)) =
      Some (length (msg_member len t), b')" "writes_at b p len (msg_member len t) b'"
    using close_message_ok [OF m(1) assms(1) _ assms(3) m(3) [symmetric] m(2)] m(3) assms(2) by metis
  have "format_message b p len m h = Some (length (msg_member len t), b', h\<lparr>brk := Suc (brk h)\<rparr>)"
    unfolding format_message_def msg_head_def [symmetric]
    using assms(1) by (simp add: b1(1) sizes heap assms(6) b2(1) assms(8) c(1) Let_def del: One_nat_def)
  with c(2) show ?thesis by blast
qed

lemma format_message_ok:
  assumes "19 < len" "p + len \<le> length b" "len \<le> INT_MAX" "NUL \<notin> set t" "length t < INT_MAX"
    "malloc_ok h (brk h)" "strs h (brk h) = None"
  shows "\<exists>b'. format_message b p len (Formatted t) h = Some (length (msg_member len t), b', h\<lparr>brk := Suc (brk h)\<rparr>) \<and>
    writes_at b p len (msg_member len t) b'"
proof -
  let ?n = "len - 7"
  obtain tmp where tmp: "vsnprintf_tmp (map (garbage h (brk h)) [0..<?n]) ?n (Formatted t) = Some (int (length t), tmp)"
    "cstr tmp = Some (take (len - 8) t)"
    using cstr_vsnprintf [of "map (garbage h (brk h)) [0..<?n]" ?n t] assms by (auto simp: diff_diff_left)
  have "size_of_int (int (length t)) = length t" "size_add (length t) 1 = length t + 1" using assms(5) by (simp_all add: less_SIZE_MOD)
  then show ?thesis using message_truncated_iff [OF assms(1), of t] by (intro format_message_gen [OF assms(1-3,6,7) tmp]) simp
qed

text \<open>When \<open>vsnprintf\<close> fails, the text that it has left in the scratch buffer counts.\<close>

lemma format_message_failed:
  assumes "19 < len" "p + len \<le> length b" "len \<le> INT_MAX" "malloc_ok h (brk h)" "strs h (brk h) = None"
    "length (f (map (garbage h (brk h)) [0..<len - 7])) = len - 7" "cstr (f (map (garbage h (brk h)) [0..<len - 7])) = Some t"
  shows "\<exists>b'. format_message b p len (Failed f) h = Some (length (msg_member len t), b', h\<lparr>brk := Suc (brk h)\<rparr>) \<and>
    writes_at b p len (msg_member len t) b'"
proof -
  let ?tmp = "map (garbage h (brk h)) [0..<len - 7]"
  obtain rest where "f ?tmp = t @ NUL # rest" using cstr_SomeD [OF assms(7)] by blast
  then have t: "take (len - 8) t = t" using assms(6) by simp
  have "size_add (size_of_int (- 1)) 1 = 0" by (simp add: size_add_def size_of_int_def SIZE_MOD_def)
  moreover have "vsnprintf_tmp ?tmp (len - 7) (Failed f) = Some (- 1, f ?tmp)" by (simp add: vsnprintf_tmp_def)
  ultimately show ?thesis using assms(1,7) by (intro format_message_gen [OF assms(1-5)]) (simp_all only: t, simp)
qed

section \<open>The log entry\<close>

lemma mdc_member_length: "mdc_member len ps = [] \<or> length (mdc_member len ps) < len"
proof (cases "8 < len")
  case True
  then show ?thesis using mdc_fit_length [of "len - 7" ps] by (auto simp: mdc_member_def)
qed (simp add: mdc_member_def)

lemma msg_member_length: "19 < len \<Longrightarrow> 0 < length (msg_member len t) \<and> length (msg_member len t) < len"
  using fit_length [of "len - 20" t] by (auto simp: msg_member_def)

lemma member_room_eq: "length A + 20 \<le> len \<Longrightarrow> len \<le> INT_MAX \<Longrightarrow> member_room len (length A) = room len A"
  by (simp add: member_room_def room_def)

text \<open>What a member writes after the text \<open>A\<close>, with the comma that follows it.\<close>

lemma add_comma_ok:
  assumes "fills buffer 0 len A b" "fills b (length A) len s b1" "s = [] \<or> length s < room len A"
    "length A + 20 \<le> len" "len \<le> INT_MAX" "len \<le> length buffer"
  shows "\<exists>b2. add_comma (length A) (length s) b1 = Some (length (A @ with_comma s), b2) \<and>
    fills buffer 0 len (A @ with_comma s) b2 \<and> length (A @ with_comma s) + 20 \<le> len"
proof (cases "s = []")
  case True
  then show ?thesis using assms fills_append [OF assms(1), of "[]" b1] by (auto simp: add_comma_def with_comma_def)
next
  case False
  have bound: "length A + length s + 21 \<le> len" using assms(3,4) False by (auto simp: room_def)
  have f: "fills buffer 0 len (A @ s) b1" using fills_append [OF assms(1)] assms(2) by simp
  have "length (A @ s) < length b1" using bound assms(6) f by (simp add: fills_def)
  then have "fills b1 (length (A @ s)) len '','' (b1[length (A @ s) := CHR '',''])" using bound by (intro fills_one) auto
  then have g: "fills buffer 0 len ((A @ s) @ '','') (b1[length (A @ s) := CHR '',''])" using fills_append [OF f] by simp
  have "int_add (length A) (length s) = Some (length A + length s)" "int_add (length A + length s) 1 = Some (length A + length s + 1)"
    "length A + length s < length b1"
    using bound assms(5,6) f by (auto simp: fills_def)
  then show ?thesis using False g bound by (simp add: add_comma_def with_comma_def)
qed

text \<open>A member that is written by one of the formatters and closed with its comma.\<close>

lemma member_step:
  assumes "\<And>b. len \<le> length b \<Longrightarrow> \<exists>b1. f b = Some (length s, b1) \<and> fills b (length A) len s b1"
    "s = [] \<or> length s < room len A" "fills buffer 0 len A b" "length A + 20 \<le> len" "len \<le> INT_MAX" "len \<le> length buffer"
  shows "\<exists>b2. Option.bind (f b) (\<lambda>(ret, b1). add_comma (length A) ret b1) = Some (length (A @ with_comma s), b2) \<and>
    fills buffer 0 len (A @ with_comma s) b2 \<and> length (A @ with_comma s) + 20 \<le> len"
proof -
  obtain b1 where "f b = Some (length s, b1)" "fills b (length A) len s b1"
    using assms(1) [of b] assms(3,6) by (auto simp: fills_def)
  then show ?thesis using add_comma_ok [OF assms(3) _ assms(2,4-6)] by simp
qed

lemma entry_start: "0 < len \<Longrightarrow> len \<le> length buffer \<Longrightarrow> fills buffer 0 len ''{'' (buffer[0 := CHR ''{''])"
  using fills_one [of 0 len buffer] by (cases buffer) auto

text \<open>The four members in front of the message.\<close>

definition write_head ::
  "block \<Rightarrow> nat \<Rightarrow> timeval \<Rightarrow> block option \<Rightarrow> severity \<Rightarrow> addr option \<Rightarrow> 'a mdc_heap_scheme \<Rightarrow> (nat \<times> block) option" where
  "write_head buffer len timestamp identity severity mdc h = do {
     b \<leftarrow> wr buffer 0 CHR ''{'';
     (offset, b) \<leftarrow> Option.bind (format_timestamp b 1 (member_room len 1) timestamp) (\<lambda>(ret, b). add_comma 1 ret b);
     (offset, b) \<leftarrow> Option.bind (format_severity b offset (member_room len offset) severity) (\<lambda>(ret, b). add_comma offset ret b);
     (offset, b) \<leftarrow> Option.bind (format_identity b offset (member_room len offset) identity) (\<lambda>(ret, b). add_comma offset ret b);
     Option.bind (format_mdc b offset (member_room len offset) mdc h) (\<lambda>(ret, b). add_comma offset ret b)
   }"

lemma write_head_ok:
  assumes "mdc_rep h t cs" "ident_str identity i" "20 < len" "len \<le> INT_MAX" "len \<le> length buffer"
  shows "\<exists>b. write_head buffer len tv identity severity (first_ptr cs None) h =
      Some (length (entry_head len tv i severity (pairs cs)), b) \<and>
    fills buffer 0 len (entry_head len tv i severity (pairs cs)) b \<and>
    length (entry_head len tv i severity (pairs cs)) + 20 \<le> len"
proof -
  have win: "length A < len" "length A + room len A \<le> len" "room len A \<le> INT_MAX" if "length A + 20 \<le> len" for A
    using that assms(4) by (auto simp: room_def)
  define a1 where "a1 = ''{'' @ with_comma (clip (room len ''{'') (ts_member tv))"
  define a2 where "a2 = a1 @ with_comma (clip (room len a1) (sev_member severity))"
  define a3 where "a3 = a2 @ with_comma (clip (room len a2) (id_member i))"
  define a4 where "a4 = a3 @ with_comma (mdc_member (room len a3) (pairs cs))"
  have clip: "clip n s = [] \<or> length (clip n s) < n" for n s by (auto simp: clip_def)
  have l0: "length ''{'' + 20 \<le> len" using assms(3) by simp
  have start: "fills buffer 0 len ''{'' (buffer[0 := CHR ''{''])" using entry_start assms(3,5) by simp
  obtain b1 where s1: "Option.bind (format_timestamp (buffer[0 := CHR ''{'']) (length ''{'') (room len ''{'') tv)
      (\<lambda>(ret, b). add_comma (length ''{'') ret b) = Some (length a1, b1)"
    "fills buffer 0 len a1 b1" and l1: "length a1 + 20 \<le> len"
    using member_step [where f = "\<lambda>b. format_timestamp b (length ''{'') (room len ''{'') tv", OF format_timestamp_ok [OF win(1,2) [OF l0] _ win(3) [OF l0]] clip start l0 assms(4,5)]
    unfolding a1_def [symmetric] by blast
  obtain b2 where s2: "Option.bind (format_severity b1 (length a1) (room len a1) severity)
      (\<lambda>(ret, b). add_comma (length a1) ret b) = Some (length a2, b2)"
    "fills buffer 0 len a2 b2" and l2: "length a2 + 20 \<le> len"
    using member_step [where f = "\<lambda>b. format_severity b (length a1) (room len a1) severity", OF format_severity_ok [OF win(1,2) [OF l1] _ win(3) [OF l1]] clip s1(2) l1 assms(4,5)]
    unfolding a2_def [symmetric] by blast
  obtain b3 where s3: "Option.bind (format_identity b2 (length a2) (room len a2) identity)
      (\<lambda>(ret, b). add_comma (length a2) ret b) = Some (length a3, b3)"
    "fills buffer 0 len a3 b3" and l3: "length a3 + 20 \<le> len"
    using member_step [where f = "\<lambda>b. format_identity b (length a2) (room len a2) identity", OF format_identity_ok [OF win(1,2) [OF l2] _ win(3) [OF l2] assms(2)] clip s2(2) l2 assms(4,5)]
    unfolding a3_def [symmetric] by blast
  obtain b4 where s4: "Option.bind (format_mdc b3 (length a3) (room len a3) (first_ptr cs None) h)
      (\<lambda>(ret, b). add_comma (length a3) ret b) = Some (length a4, b4)"
    "fills buffer 0 len a4 b4" and l4: "length a4 + 20 \<le> len"
    using member_step [where f = "\<lambda>b. format_mdc b (length a3) (room len a3) (first_ptr cs None) h",
        OF format_mdc_ok [OF assms(1) win(1,2) [OF l3] _ win(3) [OF l3]] mdc_member_length s3(2) l3 assms(4,5)]
    unfolding a4_def [symmetric] by blast
  have head: "entry_head len tv i severity (pairs cs) = a4"
    by (simp add: entry_head_def a1_def a2_def a3_def a4_def Let_def)
  have r0: "member_room len 1 = room len ''{''" using member_room_eq [OF l0 assms(4)] by simp
  note rooms = r0 member_room_eq [OF l1 assms(4)] member_room_eq [OF l2 assms(4)] member_room_eq [OF l3 assms(4)]
  have w: "wr buffer 0 CHR ''{'' = Some (buffer[0 := CHR ''{''])" using assms(3,5) by (intro wr_in) linarith
  show ?thesis using s1(1) s2(1) s3(1) s4 l4
    by (simp add: write_head_def head w rooms(2-) r0 [simplified] del: Option.bind_assoc)
qed

lemma format_log_entry_write_head:
  "format_log_entry buffer len tv identity severity mdc m h = do {
     (offset, b) \<leftarrow> write_head buffer len tv identity severity mdc h;
     (ret, b, h1) \<leftarrow> format_message b offset (size_sub (size_sub len offset) 1) m h;
     if 0 < ret then do {
       offset \<leftarrow> int_add offset ret;
       b \<leftarrow> wr b offset CHR ''}'';
       offset \<leftarrow> int_add offset 1;
       b \<leftarrow> wr b offset NUL;
       Some (int offset, b, h1)
     } else do { b \<leftarrow> wr b 0 NUL; Some (- 1, b, h1) }
   }"
  by (simp add: format_log_entry_def write_head_def split_def)

text \<open>Closing the entry after the text \<open>A\<close>.\<close>

lemma close_entry:
  assumes "fills buffer 0 len A b" "length A + 1 < len" "len \<le> length buffer"
  shows "writes_at buffer 0 len (A @ ''}'') (b[length A := CHR ''}'', length A + 1 := NUL])"
proof -
  have l: "length A < len" "length A < length b" using assms by (auto simp: fills_def)
  have "fills buffer 0 len (A @ ''}'') (b[length A := CHR ''}''])"
    by (rule fills_append [OF assms(1)]) (simp add: fills_one [OF l])
  from fills_writes_at [of _ 0, simplified, OF this] assms(2,3) show ?thesis by simp
qed

lemma format_log_entry_ok:
  assumes rep: "mdc_rep h t cs" and ident: "ident_str identity i" and len: "20 < len" "len \<le> INT_MAX" "len \<le> length buffer"
    and m: "NUL \<notin> set s" "length s < INT_MAX" "malloc_ok h (brk h)"
    and room: "length (entry_head len tv i severity (pairs cs)) + 20 < len"
  shows "\<exists>b'. format_log_entry buffer len tv identity severity (first_ptr cs None) (Formatted s) h =
      Some (int (length (entry_text len tv i severity (pairs cs) s)), b', h\<lparr>brk := Suc (brk h)\<rparr>) \<and>
    writes_at buffer 0 len (entry_text len tv i severity (pairs cs) s) b'"
proof -
  define H l where "H = entry_head len tv i severity (pairs cs)" and "l = len - length H - 1"
  define M where "M = msg_member l s"
  obtain b where w: "write_head buffer len tv identity severity (first_ptr cs None) h = Some (length H, b)"
    and f: "fills buffer 0 len H b" using write_head_ok [OF rep ident len] unfolding H_def by blast
  have l: "19 < l" "length H + l < len" "l \<le> INT_MAX" "size_sub (size_sub len (length H)) 1 = l"
    using room len(2) unfolding H_def [symmetric] by (auto simp: l_def)
  have b: "length H + l \<le> length b" "strs h (brk h) = None"
    using l(2) len(3) f mdc_repD(1) [OF rep] by (auto simp: fills_def heap_wf_def)
  then obtain b1 where msg: "format_message b (length H) l (Formatted s) h = Some (length M, b1, h\<lparr>brk := Suc (brk h)\<rparr>)"
    and wm: "writes_at b (length H) l M b1"
    using format_message_ok [OF l(1) b(1) l(3) m b(2)] unfolding M_def by blast
  have M: "0 < length M" "length (H @ M) + 1 < len" using msg_member_length [OF l(1), of s] l(2) unfolding M_def by auto
  have f1: "fills buffer 0 len (H @ M) b1"
    using f writes_atD [OF wm] drop_drop_eq [of "length H + l" b1 b len] l(2) by (simp add: fills_def add.assoc)
  have b1: "length b1 = length buffer" using f1 by (simp add: fills_def)
  have "length H + length M + 1 < length b1" "length H + length M + 1 \<le> INT_MAX" using M len b1 by auto
  then have "format_log_entry buffer len tv identity severity (first_ptr cs None) (Formatted s) h =
      Some (int (length ((H @ M) @ ''}'')), b1[length (H @ M) := CHR ''}'', length (H @ M) + 1 := NUL], h\<lparr>brk := Suc (brk h)\<rparr>)"
    using M(1) by (simp add: format_log_entry_write_head w l(4) [simplified] msg)
  moreover have "entry_text len tv i severity (pairs cs) s = (H @ M) @ ''}''"
    unfolding entry_text_def H_def [symmetric] Let_def l_def [symmetric] M_def [symmetric] by simp
  ultimately show ?thesis using close_entry [OF f1 M(2) len(3)] by simp
qed

lemma format_log_entry_dropped:
  assumes rep: "mdc_rep h t cs" and ident: "ident_str identity i" and len: "20 < len" "len \<le> INT_MAX" "len \<le> length buffer"
    and room: "length (entry_head len tv i severity (pairs cs)) + 20 = len"
  shows "\<exists>b'. format_log_entry buffer len tv identity severity (first_ptr cs None) m h = Some (- 1, b', h) \<and>
    writes_at buffer 0 len [] b'"
proof -
  define H where "H = entry_head len tv i severity (pairs cs)"
  obtain b where w: "write_head buffer len tv identity severity (first_ptr cs None) h = Some (length H, b)"
    and f: "fills buffer 0 len H b" using write_head_ok [OF rep ident len] unfolding H_def by blast
  have l: "size_sub (size_sub len (length H)) 1 = 19" "length H < len" using room len(2) unfolding H_def [symmetric] by auto
  have b: "length b = length buffer" "drop len b = drop len buffer" "length H < length b" "0 < length b"
    using f l(2) len(3) by (auto simp: fills_def)
  have "format_message b (length H) 19 m h = Some (0, b[length H := NUL], h)" using b(3) by (simp add: format_message_def)
  then have "format_log_entry buffer len tv identity severity (first_ptr cs None) m h = Some (- 1, b[length H := NUL, 0 := NUL], h)"
    using b(4) by (simp add: format_log_entry_write_head w l(1) [simplified])
  moreover have "writes_at buffer 0 len [] (b[length H := NUL, 0 := NUL])"
    using b l(2) by (simp add: writes_at_def rd_def)
  ultimately show ?thesis by blast
qed

section \<open>Properties\<close>

text \<open>\<open>format_timestamp\<close> writes the time in milliseconds, computed in 64-bit arithmetic, when it
  fits and an empty text otherwise; it returns the length of what it wrote and changes nothing
  outside its window.\<close>

lemma format_timestamp_text:
  assumes "p < e" "p + len \<le> e" "e \<le> length b" "len \<le> INT_MAX"
  shows "\<exists>b'. format_timestamp b p len tv = Some (length (clip len (ts_member tv)), b') \<and> fills b p e (clip len (ts_member tv)) b'"
  using assms by (rule format_timestamp_ok)

lemma format_timestamp_text_witness:
  "\<exists>b'. format_timestamp (replicate 10 NUL) 1 8 \<lparr>tv_sec = 0, tv_usec = 5000\<rparr> = Some (6, b')"
proof -
  have "length (clip 8 (ts_member \<lparr>tv_sec = 0, tv_usec = 5000\<rparr>)) = 6"
    by (simp add: clip_def ts_member_def timestamp_ms_def quoted_def dec.simps)
  then show ?thesis using format_timestamp_text [of 1 10 8 "replicate 10 NUL" "\<lparr>tv_sec = 0, tv_usec = 5000\<rparr>"]
    by (auto simp: INT_MAX_def)
qed

text \<open>C26: \<open>format_mdc\<close> writes the entries of the context that fit, newest first and each one whole,
  as one object; it writes nothing at all when not even the empty object fits. The list is not
  changed.\<close>

theorem format_mdc_text:
  assumes "mdc_rep h t cs" "p < e" "p + len \<le> e" "e \<le> length b" "len \<le> INT_MAX"
  shows "\<exists>b'. format_mdc b p len (first_ptr cs None) h = Some (length (mdc_member len (pairs cs)), b') \<and>
    fills b p e (mdc_member len (pairs cs)) b'"
  using assms by (rule format_mdc_ok)

theorem format_mdc_text_witness:
  "\<exists>b'. format_mdc (replicate 20 NUL) 0 20 (Some 1) sample_heap = Some (15, b')"
proof -
  have "length (mdc_member 20 (pairs [sample_cell])) = 15"
    by (simp add: mdc_member_def sample_cell_def mdc_pair_def quoted_def)
  then show ?thesis using format_mdc_text [OF sample_rep, of 0 20 20 "replicate 20 NUL"]
    by (auto simp: INT_MAX_def sample_cell_def)
qed

text \<open>C12: \<open>format_message\<close> writes the escaped message when it fits. Otherwise it writes the longest
  prefix that leaves room for the mark \<open>[truncated]\<close>, without splitting an escape sequence. The
  scratch buffer is freed and nothing outside the window changes.\<close>

theorem format_message_text:
  assumes "19 < len" "p + len \<le> length b" "len \<le> INT_MAX" "NUL \<notin> set s" "length s < INT_MAX"
    "malloc_ok h (brk h)" "strs h (brk h) = None"
  shows "\<exists>b'. format_message b p len (Formatted s) h = Some (length (msg_member len s), b', h\<lparr>brk := Suc (brk h)\<rparr>) \<and>
    writes_at b p len (msg_member len s) b'"
  using assms by (rule format_message_ok)

theorem format_message_text_witness:
  "\<exists>b'. format_message (replicate 25 NUL) 0 22 (Formatted ''abcdefghijklmn'') sample_heap = Some (21, b', sample_heap\<lparr>brk := 5\<rparr>)"
proof -
  have "length (msg_member 22 ''abcdefghijklmn'') = 21"
    by (simp add: msg_member_def esc1_def needs_escape_def isprint_def)
  then show ?thesis
    using format_message_text [of 22 0 "replicate 25 NUL" "''abcdefghijklmn''" sample_heap]
    by (auto simp: INT_MAX_def sample_heap_def)
qed

text \<open>C39: when \<open>vsnprintf\<close> reports an error, \<open>format_message\<close> does not notice. Whatever text the failed
  call has left in the scratch buffer, such as the output in front of a conversion that failed, is
  written as the message, escaped and, unless it is too long, without the truncation mark, just like
  a message that is complete.\<close>

theorem format_failure_unnoticed:
  assumes "19 < len" "p + len \<le> length b" "len \<le> INT_MAX" "malloc_ok h (brk h)" "strs h (brk h) = None"
    "length (f (map (garbage h (brk h)) [0..<len - 7])) = len - 7" "cstr (f (map (garbage h (brk h)) [0..<len - 7])) = Some t"
  shows "\<exists>b'. format_message b p len (Failed f) h = Some (length (msg_member len t), b', h\<lparr>brk := Suc (brk h)\<rparr>) \<and>
    writes_at b p len (msg_member len t) b'"
  using assms by (rule format_message_failed)

theorem format_failure_unnoticed_witness:
  "\<exists>b'. format_message (replicate 25 NUL) 0 22 (Failed (\<lambda>tmp. ''abc'' @ NUL # drop 4 tmp)) sample_heap = Some (11, b', sample_heap\<lparr>brk := 5\<rparr>) \<and>
    take 11 b' = quoted MESSAGE_KEY @ '':'' @ quoted ''abc''"
proof -
  let ?f = "\<lambda>tmp. ''abc'' @ NUL # drop 4 tmp" and ?tmp = "map (garbage sample_heap (brk sample_heap)) [0..<22 - 7]"
  have "length (?f ?tmp) = 22 - 7" "cstr (?f ?tmp) = Some ''abc''" using cstr_append_NUL [of "''abc''"] by simp_all
  note format_failure_unnoticed [where f = ?f, OF _ _ _ _ _ this, of 0 "replicate 25 NUL"]
  moreover have "escape_str ''abc'' = ''abc''" by (simp add: esc1_def isprint_def needs_escape_def)
  then have "msg_member 22 ''abc'' = quoted MESSAGE_KEY @ '':'' @ quoted ''abc''" unfolding msg_member_def msg_head_def quoted_def by simp
  moreover have "length (quoted MESSAGE_KEY @ '':'' @ quoted ''abc'') = 11" by (simp add: quoted_def)
  ultimately show ?thesis by (auto simp: sample_heap_def INT_MAX_def writes_at_def)
qed

text \<open>Without memory for its scratch buffer \<open>format_message\<close> writes an empty text and
  returns 0, so that the entry is dropped.\<close>

lemma format_message_no_memory:
  assumes "19 < len" "p + len \<le> length b" "len \<le> INT_MAX" "\<not> malloc_ok h (brk h)"
  shows "\<exists>b'. format_message b p len m h = Some (0, b', h\<lparr>brk := Suc (brk h)\<rparr>) \<and> rd b' p = Some NUL \<and> length b' = length b"
proof -
  obtain b1 where b1: "snprintf_at b p len msg_head = Some (7, b1)" "writes_at b p len msg_head b1"
    using snprintf_fits [OF assms(2), of msg_head] assms(1,3) by auto
  have "p < length b1" "length b1 = length b" using b1(2) assms(1,2) by (auto simp: writes_at_def)
  moreover have "malloc_block n h = (None, h\<lparr>brk := Suc (brk h)\<rparr>)" for n using assms(4) by (simp add: malloc_block_def new_addr_def)
  moreover have "size_of_int 7 = 7" using size_of_int_nat [of 7] by (simp add: SIZE_MOD_def)
  ultimately show ?thesis unfolding format_message_def msg_head_def [symmetric]
    using assms(1) b1(1) by (simp add: Let_def rd_def)
qed

lemma format_message_no_memory_witness:
  "\<exists>b'. format_message (replicate 30 QUOTE) 0 30 (Formatted ''x'') (sample_heap\<lparr>malloc_ok := \<lambda>a. False\<rparr>) =
     Some (0, b', sample_heap\<lparr>malloc_ok := \<lambda>a. False, brk := 5\<rparr>)"
  using format_message_no_memory [of 30 0 "replicate 30 QUOTE" "sample_heap\<lparr>malloc_ok := \<lambda>a. False\<rparr>" "Formatted ''x''"]
  by (auto simp: INT_MAX_def sample_heap_def)

end
