(* ===== verification/Json_Reader.thy ===== *)
theory Json_Reader
  imports Json_Format_Correct
begin

text \<open>
  What a consumer of the log sees. The reader accepts a subset of JSON that is enough for a log
  entry: an object whose values are numbers, strings and flat objects of strings. \<open>codec\<close> is the
  contract between a printer and a reader of one kind of item, and its lemmas lift it to
  comma-separated objects; the interpretations give it for strings, numbers, members and whole
  entries. The text the formatter writes is then shown to be the print of \<open>entry_members\<close>, so
  reading it gives back the timestamp, severity, identity, context and message.
\<close>

section \<open>Reader\<close>

datatype jval = JNum nat | JStr string | JMap "(string \<times> string) list"

definition isdigit :: "char \<Rightarrow> bool" where
  "isdigit c \<longleftrightarrow> 48 \<le> (of_char c :: nat) \<and> (of_char c :: nat) \<le> 57"

definition num_of :: "string \<Rightarrow> nat" where
  "num_of s = foldl (\<lambda>n c. 10 * n + (of_char c - 48)) 0 s"

text \<open>A number has no leading zero.\<close>

definition read_num :: "string \<Rightarrow> (nat \<times> string) option" where
  "read_num s = (let ds = takeWhile isdigit s in
     if ds = [] \<or> hd ds = CHR ''0'' \<and> tl ds \<noteq> [] then None else Some (num_of ds, dropWhile isdigit s))"

text \<open>The rest of a string after its opening quote.\<close>

fun read_chars :: "string \<Rightarrow> (string \<times> string) option" where
  "read_chars [] = None"
| "read_chars (c # cs) =
     (if c = QUOTE then Some ([], cs)
      else if \<not> isprint c then None
      else if c = BACKSLASH then
        (case cs of
           [] \<Rightarrow> None
         | e # es \<Rightarrow> if e = BACKSLASH \<or> e = QUOTE then map_option (apfst ((#) e)) (read_chars es) else None)
      else map_option (apfst ((#) c)) (read_chars cs))"

fun expect :: "char \<Rightarrow> string \<Rightarrow> string option" where
  "expect c [] = None"
| "expect c (x # xs) = (if x = c then Some xs else None)"

definition read_string :: "string \<Rightarrow> (string \<times> string) option" where
  "read_string s = do { r \<leftarrow> expect QUOTE s; read_chars r }"

definition read_member :: "(string \<Rightarrow> ('a \<times> string) option) \<Rightarrow> string \<Rightarrow> ((string \<times> 'a) \<times> string) option" where
  "read_member rv s = do {
     (k, r) \<leftarrow> read_string s;
     r \<leftarrow> expect CHR '':'' r;
     (v, r) \<leftarrow> rv r;
     Some ((k, v), r) }"

fun read_items :: "(string \<Rightarrow> ('a \<times> string) option) \<Rightarrow> nat \<Rightarrow> string \<Rightarrow> ('a list \<times> string) option" where
  "read_items rv 0 s = None"
| "read_items rv (Suc n) s = do {
     (x, r) \<leftarrow> rv s;
     (case expect CHR '','' r of
        Some r1 \<Rightarrow> map_option (apfst ((#) x)) (read_items rv n r1)
      | None \<Rightarrow> map_option (Pair [x]) (expect CHR ''}'' r)) }"

definition read_obj :: "(string \<Rightarrow> ('a \<times> string) option) \<Rightarrow> string \<Rightarrow> ('a list \<times> string) option" where
  "read_obj rv s = do {
     r \<leftarrow> expect CHR ''{'' s;
     (case expect CHR ''}'' r of Some r1 \<Rightarrow> Some ([], r1) | None \<Rightarrow> read_items rv (length r) r) }"

definition read_val :: "string \<Rightarrow> (jval \<times> string) option" where
  "read_val s = (case s of
      [] \<Rightarrow> None
    | c # _ \<Rightarrow> if c = QUOTE then map_option (apfst JStr) (read_string s)
        else if c = CHR ''{'' then map_option (apfst JMap) (read_obj (read_member read_string) s)
        else map_option (apfst JNum) (read_num s))"

definition read_entry :: "string \<Rightarrow> (string \<times> jval) list option" where
  "read_entry s = (case read_obj (read_member read_val) s of Some (ms, []) \<Rightarrow> Some ms | _ \<Rightarrow> None)"

section \<open>Printer\<close>

definition printable :: "string \<Rightarrow> bool" where
  "printable s \<longleftrightarrow> list_all isprint s"

fun join :: "string list \<Rightarrow> string" where
  "join [] = []"
| "join [y] = y"
| "join (y # ys) = y @ CHR '','' # join ys"

definition show_string :: "string \<Rightarrow> string" where
  "show_string s = quoted (escape_str s)"

definition show_member :: "('a \<Rightarrow> string) \<Rightarrow> string \<times> 'a \<Rightarrow> string" where
  "show_member sv kv = show_string (fst kv) @ '':'' @ sv (snd kv)"

definition show_obj :: "('a \<Rightarrow> string) \<Rightarrow> 'a list \<Rightarrow> string" where
  "show_obj sv xs = ''{'' @ join (map sv xs) @ ''}''"

definition member_wf :: "('a \<Rightarrow> bool) \<Rightarrow> string \<times> 'a \<Rightarrow> bool" where
  "member_wf ok kv \<longleftrightarrow> printable (fst kv) \<and> ok (snd kv)"

definition show_val :: "jval \<Rightarrow> string" where
  "show_val v = (case v of JNum n \<Rightarrow> dec n | JStr s \<Rightarrow> show_string s | JMap kvs \<Rightarrow> show_obj (show_member show_string) kvs)"

definition jval_wf :: "jval \<Rightarrow> bool" where
  "jval_wf v \<longleftrightarrow> (case v of JNum n \<Rightarrow> True | JStr s \<Rightarrow> printable s | JMap kvs \<Rightarrow> list_all (member_wf printable) kvs)"

definition show_entry :: "(string \<times> jval) list \<Rightarrow> string" where
  "show_entry ms = show_obj (show_member show_val) ms"

section \<open>The contract of a printer and a reader\<close>

text \<open>What is printed is read back, whatever follows the comma or the brace after it.\<close>

locale codec =
  fixes wf :: "'a \<Rightarrow> bool" and pr :: "'a \<Rightarrow> string" and rv :: "string \<Rightarrow> ('a \<times> string) option"
  assumes read_print: "wf x \<Longrightarrow> c = CHR '','' \<or> c = CHR ''}'' \<Longrightarrow> rv (pr x @ c # rest) = Some (x, c # rest)"
    and print_start: "wf x \<Longrightarrow> pr x \<noteq> [] \<and> hd (pr x) \<noteq> CHR ''}''"
begin

lemma read_items_join:
  "xs \<noteq> [] \<Longrightarrow> list_all wf xs \<Longrightarrow> length xs \<le> n \<Longrightarrow>
   read_items rv n (join (map pr xs) @ CHR ''}'' # rest) = Some (xs, rest)"
proof (induction xs arbitrary: n)
  case (Cons x xs)
  then obtain m where n: "n = Suc m" by (cases n) auto
  show ?case
  proof (cases xs)
    case Nil
    then show ?thesis using Cons.prems n by (simp add: read_print)
  next
    case (Cons y ys)
    then have "read_items rv m (join (map pr xs) @ CHR ''}'' # rest) = Some (xs, rest)"
      using Cons.prems Cons.IH n by simp
    then show ?thesis using Cons Cons.prems n by (simp add: read_print)
  qed
qed simp

lemma read_items_bad_tail:
  "list_all wf xs \<Longrightarrow> (\<And>m. read_items rv m r = None) \<Longrightarrow> read_items rv n (concat (map (\<lambda>x. pr x @ '','') xs) @ r) = None"
proof (induction xs arbitrary: n)
  case (Cons x xs)
  then show ?case by (cases n) (simp_all add: read_print)
qed simp

lemma join_length: "list_all wf xs \<Longrightarrow> length xs \<le> length (join (map pr xs))"
proof (induction xs)
  case (Cons x xs)
  then have "0 < length (pr x)" using print_start [of x] by simp
  with Cons show ?case by (cases xs) (auto simp: Suc_le_eq)
qed simp

lemma join_start: "xs \<noteq> [] \<Longrightarrow> list_all wf xs \<Longrightarrow> join (map pr xs) \<noteq> [] \<and> hd (join (map pr xs)) \<noteq> CHR ''}''"
  using print_start by (cases xs; cases "tl xs") auto

lemma read_obj_show: "list_all wf xs \<Longrightarrow> read_obj rv (show_obj pr xs @ rest) = Some (xs, rest)"
proof (cases "xs = []")
  case True
  then show ?thesis by (simp add: read_obj_def show_obj_def)
next
  case False
  assume wf: "list_all wf xs"
  then obtain c s where s: "join (map pr xs) = c # s" "c \<noteq> CHR ''}''" using join_start [OF False] by (cases "join (map pr xs)") auto
  have "read_items rv (length (join (map pr xs) @ CHR ''}'' # rest)) (join (map pr xs) @ CHR ''}'' # rest) = Some (xs, rest)"
    using join_length [OF wf] by (intro read_items_join [OF False wf]) simp
  then show ?thesis using s by (simp add: read_obj_def show_obj_def)
qed

end

section \<open>Interpretations\<close>

lemma printable_simps [simp]:
  "printable []" "printable (c # s) \<longleftrightarrow> isprint c \<and> printable s" "printable (s @ t) \<longleftrightarrow> printable s \<and> printable t"
  by (simp_all add: printable_def)

lemma read_chars_escape: "printable s \<Longrightarrow> read_chars (escape_str s @ QUOTE # rest) = Some (s, rest)"
  by (induction s) (auto simp: esc1_def needs_escape_def)

lemma show_string_start: "show_string s = QUOTE # escape_str s @ [QUOTE]"
  by (simp add: show_string_def quoted_def)

lemma read_string_show: "printable s \<Longrightarrow> read_string (show_string s @ rest) = Some (s, rest)"
  by (simp add: read_string_def show_string_start read_chars_escape)

lemma show_string_hd: "show_string s \<noteq> []" "hd (show_string s) = QUOTE"
  by (simp_all add: show_string_start)

interpretation str: codec printable show_string read_string
  by unfold_locales (simp_all add: read_string_show show_string_hd)

lemma codec_member:
  assumes "codec ok pr rv" shows "codec (member_wf ok) (show_member pr) (read_member rv)"
  using codec.read_print [OF assms]
  by unfold_locales (auto simp: read_member_def show_member_def member_wf_def read_string_show show_string_hd)

interpretation str_member: codec "member_wf printable" "show_member show_string" "read_member read_string"
  by (rule codec_member [OF str.codec_axioms])

lemma isdigit_dec: "list_all isdigit (dec n)"
  by (auto simp: list_all_iff isdigit_def dest: dec_digits)

lemma num_of_snoc: "num_of (s @ [c]) = 10 * num_of s + (of_char c - 48)"
  by (simp add: num_of_def)

lemma num_of_dec: "num_of (dec n) = n"
proof (induction n rule: dec.induct)
  case (1 n)
  show ?case
  proof (cases "n < 10")
    case True
    then show ?thesis by (subst dec.simps) (simp add: num_of_def)
  next
    case False
    then have "dec n = dec (n div 10) @ [char_of (48 + n mod 10)]" by (subst dec.simps) simp
    then show ?thesis using 1 False by (simp add: num_of_snoc)
  qed
qed

lemma digit_not_zero: "0 < d \<Longrightarrow> d < 10 \<Longrightarrow> char_of (48 + d :: nat) \<noteq> CHR ''0''"
proof
  assume "0 < d" "d < 10" "char_of (48 + d :: nat) = CHR ''0''"
  then have "(of_char (char_of (48 + d :: nat) :: char) :: nat) = of_char CHR ''0''" by simp
  with \<open>0 < d\<close> \<open>d < 10\<close> show False by simp
qed

lemma hd_dec: "10 \<le> n \<Longrightarrow> hd (dec n) \<noteq> CHR ''0''"
proof (induction n rule: dec.induct)
  case (1 n)
  then have d: "dec n = dec (n div 10) @ [char_of (48 + n mod 10)]" by (subst dec.simps) simp
  show ?case
  proof (cases "n div 10 < 10")
    case True
    then have "dec (n div 10) = [char_of (48 + n div 10)]" by (subst dec.simps) simp
    moreover have "char_of (48 + n div 10) \<noteq> CHR ''0''" using True "1.prems" by (intro digit_not_zero) auto
    ultimately show ?thesis using d by simp
  next
    case False
    then show ?thesis using 1 d by simp
  qed
qed

lemma read_num_dec:
  assumes "\<not> isdigit c" shows "read_num (dec n @ c # rest) = Some (n, c # rest)"
proof -
  have d: "\<forall>x \<in> set (dec n). isdigit x" using isdigit_dec by (simp add: list_all_iff)
  then have "takeWhile isdigit (dec n @ c # rest) = dec n" "dropWhile isdigit (dec n @ c # rest) = c # rest"
    using assms by (simp_all add: takeWhile_append2 dropWhile_append2)
  moreover have "hd (dec n) \<noteq> CHR ''0'' \<or> tl (dec n) = []"
    using hd_dec [of n] by (cases "n < 10") (auto simp: dec.simps [of n])
  ultimately show ?thesis by (auto simp: read_num_def Let_def num_of_dec)
qed

lemma dec_start: "hd (dec n) \<noteq> QUOTE" "hd (dec n) \<noteq> CHR ''{''" "hd (dec n) \<noteq> CHR ''}''"
  using isdigit_dec [of n] by (cases "dec n"; auto simp: isdigit_def)+

interpretation jval: codec jval_wf show_val read_val
proof unfold_locales
  fix v :: jval and c :: char and rest :: string
  assume v: "jval_wf v"
  show "show_val v \<noteq> [] \<and> hd (show_val v) \<noteq> CHR ''}''"
    by (cases v) (simp_all add: show_val_def show_string_start show_obj_def dec_start)
  assume c: "c = CHR '','' \<or> c = CHR ''}''"
  show "read_val (show_val v @ c # rest) = Some (v, c # rest)"
  proof (cases v)
    case (JNum n)
    have "\<not> isdigit c" using c by (auto simp: isdigit_def)
    then show ?thesis using JNum dec_start [of n] read_num_dec [of c n rest] by (cases "dec n") (auto simp: read_val_def show_val_def)
  next
    case (JStr s)
    then show ?thesis using v read_string_show [of s "c # rest"]
      by (simp add: read_val_def show_val_def jval_wf_def show_string_start)
  next
    case (JMap kvs)
    then have "read_obj (read_member read_string) (show_obj (show_member show_string) kvs @ c # rest) = Some (kvs, c # rest)"
      using v by (intro str_member.read_obj_show) (simp add: jval_wf_def)
    then show ?thesis using JMap by (simp add: read_val_def show_val_def show_obj_def)
  qed
qed

interpretation member: codec "member_wf jval_wf" "show_member show_val" "read_member read_val"
  by (rule codec_member [OF jval.codec_axioms])

lemma read_show_entry: "list_all (member_wf jval_wf) ms \<Longrightarrow> read_entry (show_entry ms) = Some ms"
  using member.read_obj_show [of ms "[]"] by (simp add: read_entry_def show_entry_def)

section \<open>The log entry as data\<close>

text \<open>The identity as it is printed.\<close>

definition ident_text :: "string option \<Rightarrow> string" where
  "ident_text i = take IDENTITY_MAX_LENGTH (case i of None \<Rightarrow> ''(null)'' | Some s \<Rightarrow> s)"

text \<open>The members in front of the context, which always fit into a buffer of the size the entry
  point asks for.\<close>

definition fixed_head :: "timeval \<Rightarrow> string option \<Rightarrow> severity \<Rightarrow> string" where
  "fixed_head tv i severity = ''{'' @ ts_member tv @ '','' @ with_comma (sev_member severity) @ id_member i @ '',''"

definition mdc_kept :: "nat \<Rightarrow> (string \<times> string) list \<Rightarrow> (string \<times> string) list" where
  "mdc_kept n kvs = take (length (mdc_fit n (map (apsnd escape_str) kvs))) kvs"

definition msg_value :: "nat \<Rightarrow> string \<Rightarrow> string" where
  "msg_value len t =
     (if length msg_head + length (escape_str t) + 2 \<le> len then sanitize t
      else sanitize (take (fit_count (len - 20) t) t) @ TRUNCATED)"

definition entry_members ::
  "nat \<Rightarrow> timeval \<Rightarrow> string option \<Rightarrow> string \<Rightarrow> severity \<Rightarrow> (string \<times> string) list \<Rightarrow> string \<Rightarrow> (string \<times> jval) list" where
  "entry_members len tv i name severity kvs t =
     (let ps = map (apsnd escape_str) kvs;
          a = fixed_head tv i severity;
          kept = mdc_kept (room len a - 7) kvs
      in [(TIMESTAMP_KEY, JNum (unat (timestamp_ms tv)))] @
         (case severity_val severity of None \<Rightarrow> [] | Some v \<Rightarrow> [(SEVERITY_KEY, JStr v)]) @
         [(LOGGER_KEY, JStr (sanitize name)),
          (MDC_KEY, JMap (map (apsnd sanitize) kept)),
          (MESSAGE_KEY, JStr (msg_value (len - length (entry_head len tv i severity ps) - 1) t))])"

lemma escape_sanitize: "escape_str (sanitize s) = escape_str s"
  by (induction s) (auto simp: sanitize_def esc1_def needs_escape_def)

lemma printable_sanitize [simp]: "printable (sanitize s)"
  by (auto simp: printable_def sanitize_def list_all_iff)

lemma escape_plain: "list_all (\<lambda>c. isprint c \<and> \<not> needs_escape c) s \<Longrightarrow> escape_str s = s"
  by (induction s) (auto simp: esc1_def)

lemmas literal_simps = esc1_def needs_escape_def isprint_def

lemma severity_val_plain: "severity_val s = Some v \<Longrightarrow> escape_str v = v \<and> printable v \<and> length v \<le> 7"
  by (auto simp: severity_val_def isprint_def needs_escape_def split: if_splits intro!: escape_plain)

lemma msg_member_show: "msg_member len t = show_member show_val (MESSAGE_KEY, JStr (msg_value len t))"
  using fit_count_take [of "len - 20" t]
  by (auto simp: msg_member_def msg_value_def show_member_def show_val_def show_string_def quoted_def msg_head_def
      escape_sanitize literal_simps)

lemma mdc_pair_show: "escape_str k = k \<Longrightarrow> mdc_pair (apsnd escape_str (k, v)) = show_member show_string (k, sanitize v) @ '',''"
  by (simp add: mdc_pair_def show_member_def show_string_def escape_sanitize)

lemma butlast_concat_join: "butlast (concat (map (\<lambda>x. f x @ '','') xs)) = join (map f xs)"
proof (induction xs)
  case (Cons x xs)
  then show ?case by (cases xs) (auto simp: butlast_append)
qed simp

lemma mdc_fit_take: "mdc_fit n ps = take (length (mdc_fit n ps)) ps"
  by (induction n ps rule: mdc_fit.induct) auto

lemma mdc_member_show:
  assumes "list_all (\<lambda>(k, v). escape_str k = k) kvs" "8 < len"
  shows "mdc_member len (map (apsnd escape_str) kvs) =
    show_member show_val (MDC_KEY, JMap (map (apsnd sanitize) (mdc_kept (len - 7) kvs)))"
proof -
  let ?kept = "mdc_kept (len - 7) kvs"
  have "mdc_fit (len - 7) (map (apsnd escape_str) kvs) = map (apsnd escape_str) ?kept"
    using mdc_fit_take [of "len - 7" "map (apsnd escape_str) kvs"] by (simp add: mdc_kept_def take_map)
  moreover have "map mdc_pair (map (apsnd escape_str) ?kept) = map (\<lambda>kv. show_member show_string (apsnd sanitize kv) @ '','') ?kept"
  proof -
    have "escape_str (fst kv) = fst kv" if "kv \<in> set ?kept" for kv
      using that assms(1) in_set_takeD [of kv _ kvs] by (fastforce simp: mdc_kept_def list_all_iff)
    then show ?thesis using mdc_pair_show by (auto simp: comp_def)
  qed
  ultimately have "mdc_member len (map (apsnd escape_str) kvs) =
      mdc_head @ join (map (\<lambda>kv. show_member show_string (apsnd sanitize kv)) ?kept) @ ''}''"
    using assms(2) butlast_concat_join [of "\<lambda>kv. show_member show_string (apsnd sanitize kv)" ?kept]
    by (simp add: mdc_member_def del: map_map)
  then show ?thesis
    by (simp add: mdc_head_def show_member_def [of show_val] show_val_def show_obj_def show_string_def [of MDC_KEY] comp_def literal_simps)
qed

lemma ts_member_length: "length (ts_member tv) \<le> 25"
proof -
  have "unat (timestamp_ms tv) < 10 ^ 20" using unsigned_less [of "timestamp_ms tv", where 'a = nat] by simp
  then have "length (dec (unat (timestamp_ms tv))) \<le> 20" by (intro dec_length_le) auto
  then show ?thesis by (simp add: ts_member_def quoted_def)
qed

lemma sev_member_length: "length (sev_member s) \<le> 16"
  using severity_val_plain [of s] by (auto simp: sev_member_def quoted_def split: option.splits)

lemma id_member_length: "length (id_member i) \<le> 107"
  by (simp add: id_member_def quoted_def)

lemma fixed_head_length: "length (fixed_head tv i severity) \<le> 152"
  using ts_member_length [of tv] sev_member_length [of severity] id_member_length [of i]
  by (auto simp: fixed_head_def with_comma_def)

lemma clip_fits: "length s < len \<Longrightarrow> clip len s = s"
  by (simp add: clip_def)

lemma entry_head_fixed:
  assumes "MIN_BUFFER_LENGTH \<le> len"
  shows "entry_head len tv i severity ps =
    fixed_head tv i severity @ mdc_member (room len (fixed_head tv i severity)) ps @ '',''"
proof -
  define a1 a2 where "a1 = ''{'' @ ts_member tv @ '',''" and "a2 = a1 @ with_comma (sev_member severity)"
  have l: "length a1 \<le> 27" "length a2 \<le> 44"
    using ts_member_length [of tv] sev_member_length [of severity] by (auto simp: a1_def a2_def with_comma_def)
  have fixed: "fixed_head tv i severity = a2 @ id_member i @ '',''" by (simp add: fixed_head_def a1_def a2_def)
  have "clip (room len ''{'') (ts_member tv) = ts_member tv" "ts_member tv \<noteq> []"
    using ts_member_length [of tv] assms by (auto simp: room_def ts_member_def intro!: clip_fits)
  moreover have "clip (room len a1) (sev_member severity) = sev_member severity"
    using sev_member_length [of severity] l assms by (intro clip_fits) (simp add: room_def)
  moreover have "clip (room len a2) (id_member i) = id_member i" "id_member i \<noteq> []"
    using id_member_length [of i] l assms by (auto simp: room_def id_member_def intro!: clip_fits)
  moreover have "8 < room len (fixed_head tv i severity)" using fixed_head_length [of tv i severity] assms by (simp add: room_def)
  ultimately show ?thesis
    unfolding entry_head_def Let_def fixed using a1_def a2_def by (simp add: with_comma_def mdc_member_def)
qed

lemma id_member_show: "ident_text i = escape_str name \<Longrightarrow> id_member i = show_member show_val (LOGGER_KEY, JStr (sanitize name))"
  by (simp add: id_member_def ident_text_def show_member_def show_val_def show_string_def escape_sanitize literal_simps)

lemma sev_member_show: "severity_val s = Some v \<Longrightarrow> sev_member s = show_member show_val (SEVERITY_KEY, JStr v)"
  using severity_val_plain [of s v] by (simp add: sev_member_def show_member_def show_val_def show_string_def literal_simps)

lemma sev_with_comma: "with_comma (sev_member s) = (case severity_val s of None \<Rightarrow> []
    | Some v \<Rightarrow> show_member show_val (SEVERITY_KEY, JStr v) @ '','')"
  using sev_member_show [of s]
  by (auto simp: with_comma_def sev_member_def show_member_def show_string_start split: option.splits)

lemma ts_member_show: "ts_member tv = show_member show_val (TIMESTAMP_KEY, JNum (unat (timestamp_ms tv)))"
  by (simp add: ts_member_def show_member_def show_val_def show_string_def literal_simps)

lemma entry_text_show:
  assumes "MIN_BUFFER_LENGTH \<le> len" "ident_text i = escape_str name" "list_all (\<lambda>(k, v). escape_str k = k) kvs"
  shows "entry_text len tv i severity (map (apsnd escape_str) kvs) t = show_entry (entry_members len tv i name severity kvs t)"
proof -
  let ?a = "fixed_head tv i severity" and ?ps = "map (apsnd escape_str) kvs"
  let ?l = "len - length (entry_head len tv i severity ?ps) - 1"
  have room: "8 < room len ?a" using fixed_head_length [of tv i severity] assms(1) by (simp add: room_def)
  have "entry_text len tv i severity ?ps t =
      ?a @ mdc_member (room len ?a) ?ps @ '','' @ msg_member ?l t @ ''}''"
    using entry_head_fixed [OF assms(1)] by (simp add: entry_text_def Let_def)
  also have "\<dots> = show_entry (entry_members len tv i name severity kvs t)"
    unfolding entry_members_def show_entry_def show_obj_def Let_def mdc_member_show [OF assms(3) room] msg_member_show
    by (cases "severity_val severity")
      (simp_all add: fixed_head_def ts_member_show id_member_show [OF assms(2)] sev_with_comma)
  finally show ?thesis .
qed

lemma printable_escape_id: "escape_str s = s \<Longrightarrow> printable s"
  using escape_str_print [of _ s] by (auto simp: printable_def list_all_iff)

lemma entry_members_wf:
  assumes "list_all (\<lambda>(k, v). escape_str k = k) kvs"
  shows "list_all (member_wf jval_wf) (entry_members len tv i name severity kvs t)"
proof -
  have "list_all (member_wf printable) (map (apsnd sanitize) (mdc_kept n kvs))" for n
    using assms by (fastforce simp: list_all_iff member_wf_def mdc_kept_def intro: printable_escape_id dest!: in_set_takeD)
  then show ?thesis
    using severity_val_plain [of severity]
    by (auto simp: entry_members_def member_wf_def jval_wf_def Let_def msg_value_def isprint_def split: option.splits)
qed

section \<open>What the entry point writes\<close>

lemma printable_quoted [simp]: "printable (quoted s) \<longleftrightarrow> printable s"
  by (simp add: quoted_def)

lemma printable_escape [simp]: "printable (escape_str s)"
  using escape_str_print [of _ s] by (auto simp: printable_def list_all_iff)

lemma printable_dec [simp]: "printable (dec n)"
  using dec_digits [of _ n] by (force simp: printable_def list_all_iff isprint_def)

lemma printable_join: "list_all printable ys \<Longrightarrow> printable (join ys)"
proof (induction ys)
  case (Cons y ys)
  then show ?case by (cases ys) (auto simp: isprint_def)
qed simp

lemma printable_show_obj: "(\<And>x. printable (pr x)) \<Longrightarrow> printable (show_obj pr xs)"
  by (auto simp: show_obj_def isprint_def list_all_iff intro!: printable_join)

lemma printable_show_entry: "printable (show_entry ms)"
proof -
  have c: "isprint CHR ''{''" "isprint CHR ''}''" "isprint CHR '':''" by (simp_all add: isprint_def)
  have s: "printable (show_member show_string kv)" for kv by (simp add: show_member_def show_string_def c)
  have "printable (show_val v)" for v
    using s by (cases v) (simp_all add: show_val_def show_string_def printable_show_obj)
  then show ?thesis unfolding show_entry_def by (intro printable_show_obj) (simp add: show_member_def show_string_def c)
qed

lemma printable_no_NUL: "printable s \<Longrightarrow> NUL \<notin> set s"
  by (auto simp: printable_def list_all_iff)

text \<open>The arguments under which the entry point writes an entry.\<close>

definition entry_args ::
  "block \<Rightarrow> nat \<Rightarrow> block option \<Rightarrow> string option \<Rightarrow> string \<Rightarrow> thread \<Rightarrow> cell list \<Rightarrow> (string \<times> string) list \<Rightarrow> string \<Rightarrow>
    'a mdc_heap_scheme \<Rightarrow> bool" where
  "entry_args buffer len identity i name t cs kvs s h \<longleftrightarrow>
     MIN_BUFFER_LENGTH \<le> len \<and> len \<le> INT_MAX \<and> len \<le> length buffer \<and>
     ident_str identity i \<and> ident_text i = escape_str name \<and>
     mdc_rep h t cs \<and> pairs cs = map (apsnd escape_str) kvs \<and> list_all (\<lambda>(k, v). escape_str k = k) kvs \<and>
     NUL \<notin> set s \<and> length s < INT_MAX \<and> malloc_ok h (brk h)"

lemma format_to_json_ok:
  assumes "entry_args buffer len identity i name t cs kvs s h"
    "length (entry_head len tv i severity (pairs cs)) + 20 < len"
  shows "\<exists>b' text. mdclog_internal_format_to_json_str buffer len tv identity severity (first_ptr cs None) (Formatted s) h =
      Some (int (length text), b', h\<lparr>brk := Suc (brk h)\<rparr>) \<and> cstr b' = Some text \<and> 0 < length text \<and> length text < len \<and>
    writes_at buffer 0 len text b' \<and> text = show_entry (entry_members len tv i name severity kvs s) \<and>
    read_entry text = Some (entry_members len tv i name severity kvs s)"
proof -
  let ?text = "show_entry (entry_members len tv i name severity kvs s)"
  have args: "MIN_BUFFER_LENGTH \<le> len" "len \<le> INT_MAX" "len \<le> length buffer" "ident_str identity i" "ident_text i = escape_str name"
    "mdc_rep h t cs" "pairs cs = map (apsnd escape_str) kvs" "list_all (\<lambda>(k, v). escape_str k = k) kvs"
    "NUL \<notin> set s" "length s < INT_MAX" "malloc_ok h (brk h)"
    using assms(1) unfolding entry_args_def by blast+
  have t: "entry_text len tv i severity (pairs cs) s = ?text"
    unfolding args(7) by (rule entry_text_show [OF args(1,5,8)])
  have "20 < len" using args(1) by simp
  from format_log_entry_ok [OF args(6,4) this args(2,3,9-11) assms(2)]
  obtain b' where b': "format_log_entry buffer len tv identity severity (first_ptr cs None) (Formatted s) h =
      Some (int (length ?text), b', h\<lparr>brk := Suc (brk h)\<rparr>)" "writes_at buffer 0 len ?text b'"
    unfolding t by blast
  have "cstr b' = Some ?text" by (rule writes_at_cstr [OF b'(2) printable_no_NUL [OF printable_show_entry]])
  moreover have "read_entry ?text = Some (entry_members len tv i name severity kvs s)"
    by (rule read_show_entry [OF entry_members_wf [OF args(8)]])
  moreover have "0 < length ?text" by (simp add: show_entry_def show_obj_def)
  ultimately show ?thesis using b' writes_atD(4) [OF b'(2)] args(1)
    by (intro exI [of _ b'] exI [of _ ?text]) (simp add: mdclog_internal_format_to_json_str_def)
qed

lemma mdc_member_le: "length (mdc_member len ps) \<le> 8 + length (concat (map mdc_pair ps))"
proof -
  have "length (concat (map mdc_pair (mdc_fit n ps))) \<le> length (concat (map mdc_pair ps))" for n
    by (induction n ps rule: mdc_fit.induct) auto
  then show ?thesis by (auto simp: mdc_member_def intro: le_trans [OF diff_le_self])
qed

lemma entry_head_length:
  assumes "MIN_BUFFER_LENGTH \<le> len"
  shows "length (entry_head len tv i severity ps) \<le> 161 + length (concat (map mdc_pair ps))"
  using entry_head_fixed [OF assms, of tv i severity ps] fixed_head_length [of tv i severity]
    mdc_member_le [of "room len (fixed_head tv i severity)" ps] by simp

lemma mdc_fit_all: "length (concat (map mdc_pair ps)) < n \<Longrightarrow> mdc_fit n ps = ps"
  by (induction n ps rule: mdc_fit.induct) auto

lemma sample_args:
  assumes "MIN_BUFFER_LENGTH \<le> len" "len \<le> INT_MAX"
  shows "entry_args (replicate len NUL) len (Some (cblock ''me'')) (Some ''me'') ''me'' 1 [sample_cell] [(''k'', ''v'')] ''hello'' sample_heap"
  using assms sample_rep
  by (simp add: entry_args_def ident_str_def cstr_def ident_text_def sample_cell_def sample_heap_def INT_MAX_def literal_simps)

lemma sample_head_length:
  "MIN_BUFFER_LENGTH \<le> len \<Longrightarrow> length (entry_head len tv i severity (pairs [sample_cell])) \<le> 169"
  using entry_head_length [of len tv i severity "pairs [sample_cell]"] by (simp add: sample_cell_def mdc_pair_def quoted_def)

section \<open>Properties\<close>

text \<open>C2: the log entry that \<open>mdclog_internal_format_to_json_str\<close> writes is valid JSON that reads back
  to the timestamp, the severity, the identity, the context entries that had room and the message
  (cut and marked when it is too long), with every non-printable character replaced by a space. The
  text is shorter than the buffer, the result is its length, and the heap is as before.\<close>

theorem log_entry_reads_back:
  assumes "entry_args buffer len identity i name t cs kvs s h"
    "length (entry_head len tv i severity (pairs cs)) + 20 < len"
  shows "\<exists>b' text. mdclog_internal_format_to_json_str buffer len tv identity severity (first_ptr cs None) (Formatted s) h =
      Some (int (length text), b', h\<lparr>brk := Suc (brk h)\<rparr>) \<and> cstr b' = Some text \<and> length text < len \<and>
    read_entry text = Some (entry_members len tv i name severity kvs s)"
  using format_to_json_ok [OF assms] by blast

theorem log_entry_reads_back_witness:
  "\<exists>b' text. mdclog_internal_format_to_json_str (replicate 1000 NUL) 1000 \<lparr>tv_sec = 1, tv_usec = 0\<rparr> (Some (cblock ''me''))
      MDCLOG_INFO (Some 1) (Formatted ''hello'') sample_heap = Some (int (length text), b', sample_heap\<lparr>brk := 5\<rparr>) \<and>
    read_entry text = Some (entry_members 1000 \<lparr>tv_sec = 1, tv_usec = 0\<rparr> (Some ''me'') ''me'' MDCLOG_INFO [(''k'', ''v'')] ''hello'')"
proof -
  have "length (entry_head 1000 \<lparr>tv_sec = 1, tv_usec = 0\<rparr> (Some ''me'') MDCLOG_INFO (pairs [sample_cell])) + 20 < 1000"
    using sample_head_length [of 1000 "\<lparr>tv_sec = 1, tv_usec = 0\<rparr>" "Some ''me''" MDCLOG_INFO] by linarith
  from log_entry_reads_back [OF sample_args this]
  have "\<exists>b' text. mdclog_internal_format_to_json_str (replicate 1000 NUL) 1000 \<lparr>tv_sec = 1, tv_usec = 0\<rparr> (Some (cblock ''me''))
      MDCLOG_INFO (first_ptr [sample_cell] None) (Formatted ''hello'') sample_heap =
      Some (int (length text), b', sample_heap\<lparr>brk := Suc (brk sample_heap)\<rparr>) \<and>
    read_entry text = Some (entry_members 1000 \<lparr>tv_sec = 1, tv_usec = 0\<rparr> (Some ''me'') ''me'' MDCLOG_INFO [(''k'', ''v'')] ''hello'')"
    by (force simp: INT_MAX_def)
  moreover have "first_ptr [sample_cell] None = Some 1" "Suc (brk sample_heap) = 5" by (simp_all add: sample_cell_def sample_heap_def)
  ultimately show ?thesis by metis
qed

text \<open>C14: when the context and the message have room in the buffer, nothing is left out: the entry
  reads back to all entries of the context and the whole message.\<close>

theorem log_entry_complete:
  assumes "entry_args buffer len identity i name t cs kvs s h" "severity_val severity = Some sev"
    "182 + length (concat (map mdc_pair (pairs cs))) + length (escape_str s) \<le> len"
  shows "\<exists>b' text. mdclog_internal_format_to_json_str buffer len tv identity severity (first_ptr cs None) (Formatted s) h =
      Some (int (length text), b', h\<lparr>brk := Suc (brk h)\<rparr>) \<and> cstr b' = Some text \<and>
    read_entry text = Some [(TIMESTAMP_KEY, JNum (unat (timestamp_ms tv))), (SEVERITY_KEY, JStr sev),
      (LOGGER_KEY, JStr (sanitize name)), (MDC_KEY, JMap (map (apsnd sanitize) kvs)), (MESSAGE_KEY, JStr (sanitize s))]"
proof -
  have args: "MIN_BUFFER_LENGTH \<le> len" "pairs cs = map (apsnd escape_str) kvs" using assms(1) by (auto simp: entry_args_def)
  let ?ps = "map (apsnd escape_str) kvs" and ?a = "fixed_head tv i severity"
  have h: "length (entry_head len tv i severity ?ps) \<le> 161 + length (concat (map mdc_pair ?ps))"
    by (rule entry_head_length [OF args(1)])
  have "mdc_fit (room len ?a - 7) ?ps = ?ps"
    using assms(3) fixed_head_length [of tv i severity] unfolding args(2) room_def by (intro mdc_fit_all) linarith
  then have "mdc_kept (room len ?a - 7) kvs = kvs" by (simp add: mdc_kept_def)
  moreover have "msg_value (len - length (entry_head len tv i severity ?ps) - 1) s = sanitize s"
    using h assms(3) unfolding args(2) by (simp add: msg_value_def)
  ultimately have "entry_members len tv i name severity kvs s = [(TIMESTAMP_KEY, JNum (unat (timestamp_ms tv))), (SEVERITY_KEY, JStr sev),
      (LOGGER_KEY, JStr (sanitize name)), (MDC_KEY, JMap (map (apsnd sanitize) kvs)), (MESSAGE_KEY, JStr (sanitize s))]"
    using assms(2) by (simp add: entry_members_def Let_def)
  moreover have "length (entry_head len tv i severity (pairs cs)) + 20 < len" using h assms(3) unfolding args(2) by linarith
  ultimately show ?thesis using format_to_json_ok [OF assms(1), of tv severity] by metis
qed

theorem log_entry_complete_witness:
  "\<exists>b' text. mdclog_internal_format_to_json_str (replicate 1000 NUL) 1000 \<lparr>tv_sec = 1, tv_usec = 0\<rparr> (Some (cblock ''me''))
      MDCLOG_ERR (first_ptr [sample_cell] None) (Formatted ''hello'') sample_heap = Some (int (length text), b', sample_heap\<lparr>brk := Suc (brk sample_heap)\<rparr>) \<and>
    read_entry text = Some [(''ts'', JNum (unat (timestamp_ms \<lparr>tv_sec = 1, tv_usec = 0\<rparr>))), (''crit'', JStr ''ERROR''),
      (''id'', JStr ''me''), (''mdc'', JMap [(''k'', ''v'')]), (''msg'', JStr ''hello'')]"
proof -
  have "182 + length (concat (map mdc_pair (pairs [sample_cell]))) + length (escape_str ''hello'') \<le> 1000"
    by (simp add: sample_cell_def mdc_pair_def quoted_def esc1_length)
  from log_entry_complete [OF sample_args _ this, of MDCLOG_ERR "''ERROR''" "\<lparr>tv_sec = 1, tv_usec = 0\<rparr>"]
  show ?thesis by (auto simp: INT_MAX_def severity_val_def sanitize_def isprint_def)
qed

text \<open>C13: \<open>format_log_entry\<close> never faults and never writes outside its buffer, for every buffer
  length above 20. It returns -1 and leaves an empty string exactly when the members before the
  message end 20 bytes before the end of the buffer; otherwise it writes the whole entry.\<close>

theorem format_log_entry_total:
  assumes "mdc_rep h t cs" "ident_str identity i" "20 < len" "len \<le> INT_MAX" "len \<le> length buffer"
    "NUL \<notin> set s" "length s < INT_MAX" "malloc_ok h (brk h)"
  shows "\<exists>ret b' h'. format_log_entry buffer len tv identity severity (first_ptr cs None) (Formatted s) h = Some (ret, b', h') \<and>
    strs h' = strs h \<and> nodes h' = nodes h \<and>
    (if length (entry_head len tv i severity (pairs cs)) + 20 = len then ret = - 1 \<and> writes_at buffer 0 len [] b'
     else ret = int (length (entry_text len tv i severity (pairs cs) s)) \<and>
       writes_at buffer 0 len (entry_text len tv i severity (pairs cs) s) b')"
proof (cases "length (entry_head len tv i severity (pairs cs)) + 20 = len")
  case True
  then show ?thesis using format_log_entry_dropped [OF assms(1-5) True, of "Formatted s"] by auto
next
  case False
  moreover have "length (entry_head len tv i severity (pairs cs)) + 20 \<le> len" using write_head_ok [OF assms(1-5)] by blast
  ultimately show ?thesis using format_log_entry_ok [OF assms, of tv severity] by force
qed

theorem format_log_entry_total_witness:
  "\<exists>ret b' h'. format_log_entry (replicate 28 QUOTE) 28 \<lparr>tv_sec = 0, tv_usec = 0\<rparr> None MDCLOG_ERR (first_ptr [sample_cell] None)
      (Formatted ''x'') sample_heap = Some (ret, b', h') \<and> ret = - 1"
proof -
  have "length (entry_head 28 \<lparr>tv_sec = 0, tv_usec = 0\<rparr> None MDCLOG_ERR (pairs [sample_cell])) + 20 = 28"
    by (simp add: entry_head_def Let_def room_def clip_def ts_member_def sev_member_def id_member_def mdc_member_def with_comma_def
      severity_val_def quoted_def timestamp_ms_def dec.simps)
  then show ?thesis
    using format_log_entry_total [OF sample_rep, of None None 28 "replicate 28 QUOTE" "''x''" "\<lparr>tv_sec = 0, tv_usec = 0\<rparr>" MDCLOG_ERR]
    by (auto simp: INT_MAX_def ident_str_def sample_heap_def)
qed

text \<open>C32: for every buffer length there is a length of one context value for which every message is
  dropped, however short it is: the room for the members does not count their commas, so the last
  comma can take the byte the message needs.\<close>

theorem context_value_drops_entry:
  assumes "MIN_BUFFER_LENGTH \<le> len" "len \<le> INT_MAX"
  shows "\<exists>n. \<forall>h t cs buffer identity m. mdc_rep h t cs \<longrightarrow> pairs cs = [(''k'', replicate n CHR ''a'')] \<longrightarrow>
      ident_str identity i \<longrightarrow> len \<le> length buffer \<longrightarrow>
      (\<exists>b'. mdclog_internal_format_to_json_str buffer len tv identity severity (first_ptr cs None) m h = Some (- 1, b', h))"
proof -
  let ?a = "fixed_head tv i severity"
  let ?n = "len - length ?a - 35"
  let ?ps = "[(''k'', replicate ?n CHR ''a'')]"
  have a: "length ?a + 35 \<le> len" using fixed_head_length [of tv i severity] assms(1) by linarith
  have "length (mdc_pair (''k'', replicate ?n CHR ''a'')) = ?n + 7" by (simp add: mdc_pair_def quoted_def)
  then have "length (mdc_member (room len ?a) ?ps) = ?n + 14" using a by (auto simp: mdc_member_def room_def)
  then have room: "length (entry_head len tv i severity ?ps) + 20 = len" using a entry_head_fixed [OF assms(1)] by simp
  have "20 < len" using assms(1) by simp
  then show ?thesis
    using format_log_entry_dropped [OF _ _ _ assms(2)] assms(1) room
    by (intro exI [of _ ?n]) (fastforce simp: mdclog_internal_format_to_json_str_def)
qed

theorem context_value_drops_entry_witness:
  "\<exists>n. \<forall>h t cs buffer identity m. mdc_rep (h :: mdc_heap) t cs \<longrightarrow> pairs cs = [(''k'', replicate n CHR ''a'')] \<longrightarrow>
      ident_str identity (Some ''me'') \<longrightarrow> 4095 \<le> length buffer \<longrightarrow>
      (\<exists>b'. mdclog_internal_format_to_json_str buffer 4095 \<lparr>tv_sec = 1, tv_usec = 0\<rparr> identity MDCLOG_ERR (first_ptr cs None) m h = Some (- 1, b', h))"
  by (rule context_value_drops_entry) (simp_all add: INT_MAX_def)

text \<open>A string whose closing quote is taken for an escaped one goes on to the next quote.\<close>

lemma read_chars_split:
  "printable w \<Longrightarrow> read_chars (escape_str w @ BACKSLASH # QUOTE # CHR '','' # QUOTE # r) = Some (w @ [QUOTE, CHR '',''], r)"
  by (induction w) (auto simp: literal_simps)

lemma read_split_identity:
  assumes "printable w" "ident_text i = escape_str w @ [BACKSLASH]" "c \<noteq> CHR '',''" "c \<noteq> CHR ''}''"
  shows "read_items (read_member read_val) n (id_member i @ CHR '','' # QUOTE # c # r) = None"
proof (cases n)
  case (Suc m)
  have "id_member i @ CHR '','' # QUOTE # c # r = ''\"id\":'' @ QUOTE # escape_str w @ BACKSLASH # QUOTE # CHR '','' # QUOTE # c # r"
    using assms(2) by (simp add: id_member_def ident_text_def quoted_def)
  moreover have "read_member read_val (''\"id\":'' @ QUOTE # escape_str w @ BACKSLASH # QUOTE # CHR '','' # QUOTE # c # r) =
      Some ((''id'', JStr (w @ [QUOTE, CHR '',''])), c # r)"
    using read_chars_split [OF assms(1), of "c # r"] by (simp add: read_member_def read_string_def read_val_def isprint_def)
  ultimately show ?thesis using Suc assms(3,4) by simp
qed simp

text \<open>C28: an identity that escaping has made longer than \<open>IDENTITY_MAX_LENGTH\<close> can be cut inside an
  escape sequence. The entry is then written in full and no longer valid JSON, whatever the time, the
  severity, the context and the message are.\<close>

theorem split_identity_unreadable:
  assumes "mdc_rep h t cs" "ident_str identity (Some (escape_str w @ BACKSLASH # rest))" "printable w" "length (escape_str w) = IDENTITY_MAX_LENGTH - 1"
    "MIN_BUFFER_LENGTH \<le> len" "len \<le> INT_MAX" "len \<le> length buffer" "NUL \<notin> set s" "length s < INT_MAX" "malloc_ok h (brk h)"
    "length (entry_head len tv (Some (escape_str w @ BACKSLASH # rest)) severity (pairs cs)) + 20 < len"
  shows "\<exists>b' line. mdclog_internal_format_to_json_str buffer len tv identity severity (first_ptr cs None) (Formatted s) h =
      Some (int (length line), b', h\<lparr>brk := Suc (brk h)\<rparr>) \<and> writes_at buffer 0 len line b' \<and> read_entry line = None"
proof -
  let ?i = "Some (escape_str w @ BACKSLASH # rest)"
  let ?line = "entry_text len tv ?i severity (pairs cs) s" and ?a = "fixed_head tv ?i severity"
  let ?ms = "(TIMESTAMP_KEY, JNum (unat (timestamp_ms tv))) # (case severity_val severity of None \<Rightarrow> [] | Some v \<Rightarrow> [(SEVERITY_KEY, JStr v)])"
  have "20 < len" using assms(5) by simp
  from format_log_entry_ok [OF assms(1,2) this assms(6-11)] obtain b' where
    b: "format_log_entry buffer len tv identity severity (first_ptr cs None) (Formatted s) h = Some (int (length ?line), b', h\<lparr>brk := Suc (brk h)\<rparr>)"
      "writes_at buffer 0 len ?line b'" by blast
  have i: "ident_text ?i = escape_str w @ [BACKSLASH]" using assms(4) by (simp add: ident_text_def)
  have "8 < room len ?a" using fixed_head_length [of tv ?i severity] assms(5) by (simp add: room_def)
  then obtain r where m: "mdc_member (room len ?a) (pairs cs) @ '','' @ msg_member (len - length (entry_head len tv ?i severity (pairs cs)) - 1) s @ ''}'' =
      QUOTE # CHR ''m'' # r" by (auto simp: mdc_member_def mdc_head_def quoted_def)
  have "?line = ?a @ QUOTE # CHR ''m'' # r"
    using m entry_head_fixed [OF assms(5)] by (simp add: entry_text_def Let_def)
  also have "\<dots> = CHR ''{'' # concat (map (\<lambda>x. show_member show_val x @ '','') ?ms) @ id_member ?i @ CHR '','' # QUOTE # CHR ''m'' # r"
    by (simp add: fixed_head_def ts_member_show sev_with_comma split: option.splits)
  finally have line: "?line = \<dots>" .
  have "list_all (member_wf jval_wf) ?ms"
    using severity_val_plain [of severity] by (auto simp: member_wf_def jval_wf_def isprint_def split: option.splits)
  from member.read_items_bad_tail [OF this read_split_identity [OF assms(3) i]]
  have none: "read_items (read_member read_val) n (concat (map (\<lambda>x. show_member show_val x @ '','') ?ms) @ id_member ?i @ CHR '','' # QUOTE # CHR ''m'' # r) = None" for n
    by simp
  have start: "expect CHR ''}'' (concat (map (\<lambda>x. show_member show_val x @ '','') ?ms) @ z) = None" for z
    by (simp add: show_member_def show_string_start)
  have "read_entry ?line = None" unfolding line read_entry_def read_obj_def by (simp add: start none del: list.map concat.simps read_items.simps)
  then show ?thesis using b assms(5) by (auto simp: mdclog_internal_format_to_json_str_def)
qed

text \<open>A program whose name is 99 letters and a quote.\<close>

theorem split_identity_unreadable_witness:
  "\<exists>b' line. mdclog_internal_format_to_json_str (replicate 1000 NUL) 1000 \<lparr>tv_sec = 1, tv_usec = 0\<rparr>
      (Some (cblock (escape_str (replicate 99 CHR ''a'' @ [QUOTE])))) MDCLOG_INFO (first_ptr [sample_cell] None) (Formatted ''hello'') sample_heap =
    Some (int (length line), b', sample_heap\<lparr>brk := Suc (brk sample_heap)\<rparr>) \<and> read_entry line = None"
proof -
  let ?w = "replicate 99 CHR ''a''"
  have w: "escape_str ?w = ?w" "printable ?w"
    by (auto intro!: escape_plain simp: list_all_iff printable_def isprint_def needs_escape_def)
  have e: "escape_str (?w @ [QUOTE]) = escape_str ?w @ BACKSLASH # [QUOTE]" by (simp add: literal_simps)
  have "ident_str (Some (cblock (escape_str (?w @ [QUOTE])))) (Some (escape_str ?w @ BACKSLASH # [QUOTE]))"
    unfolding e [symmetric] ident_str_def option.case cstr_append_NUL [OF printable_no_NUL [OF printable_escape]] by (simp only: option.distinct) simp
  from split_identity_unreadable [OF sample_rep this w(2), of 1000 "replicate 1000 NUL" "''hello''" "\<lparr>tv_sec = 1, tv_usec = 0\<rparr>" MDCLOG_INFO]
  show ?thesis using sample_head_length [of 1000 "\<lparr>tv_sec = 1, tv_usec = 0\<rparr>" "Some (escape_str ?w @ BACKSLASH # [QUOTE])" MDCLOG_INFO] w(1)
    by (auto simp: INT_MAX_def sample_heap_def)
qed

end
