(* ===== verification/Mdclog_Correct.thy ===== *)
theory Mdclog_Correct
  imports Mdclog Json_Reader
begin

text \<open>
  Correctness of the public API. \<open>lib_rep h t i cs\<close> is the state of an initialised library as thread
  \<open>t\<close> sees it: the entries \<open>cs\<close> of its context and the identity \<open>i\<close> of the process, which owns a
  block of its own. The locale \<open>retry_policy\<close> is what the API relies on of the retry macro.
\<close>

section \<open>Representation\<close>

text \<open>The block of the identity, apart from the blocks of the context.\<close>

definition ident_owned :: "'a mdclog_scheme \<Rightarrow> string option \<Rightarrow> cell list \<Rightarrow> bool" where
  "ident_owned h i cs \<longleftrightarrow> (case cfg_identity (configuration h) of
      None \<Rightarrow> i = None
    | Some a \<Rightarrow> (\<exists>s. i = Some s \<and> NUL \<notin> set s \<and> strs h a = Some (cblock s) \<and> a \<notin> str_addrs cs))"

definition lib_rep :: "'a mdclog_scheme \<Rightarrow> thread \<Rightarrow> string option \<Rightarrow> cell list \<Rightarrow> bool" where
  "lib_rep h t i cs \<longleftrightarrow> mdc_rep h t cs \<and> env_ok t h \<and> init_done (configuration h) \<noteq> 0 \<and> ident_owned h i cs"

text \<open>Before the first call: the same without the key and with the identity of an earlier
  initialisation, if there was one.\<close>

definition lib_raw :: "'a mdclog_scheme \<Rightarrow> thread \<Rightarrow> string option \<Rightarrow> cell list \<Rightarrow> bool" where
  "lib_raw h t i cs \<longleftrightarrow> mdc_rep (h\<lparr>key_created := True\<rparr>) t cs \<and> env_ok t h \<and> once_ec h = 0 \<and> key_create_ec h = 0 \<and> ident_owned h i cs"

lemma more_eqD:
  assumes "mdc_heap.more h' = mdc_heap.more (h :: 'a mdclog_scheme)"
  shows "configuration h' = configuration h" "current_level h' = current_level h" "attrs h' = attrs h" "progname h' = progname h"
    "out h' = out h" "write_answers h' = write_answers h" "write_calls h' = write_calls h"
  using assms by (cases h; cases h'; simp)+

lemma frame_lib:
  assumes "frame t h cs (h' :: 'a mdclog_scheme) cs'"
  shows "configuration h' = configuration h" "current_level h' = current_level h" "attrs h' = attrs h" "progname h' = progname h"
    "out h' = out h" "write_answers h' = write_answers h" "write_calls h' = write_calls h"
  using assms by (auto simp: frame_def dest: more_eqD)

lemma ident_owned_frame:
  assumes "ident_owned h i cs" "frame t h cs h' cs'" shows "ident_owned h' i cs'"
proof (cases "cfg_identity (configuration h)")
  case None
  then show ?thesis using assms frame_lib(1) [OF assms(2)] by (simp add: ident_owned_def)
next
  case (Some a)
  then obtain s where s: "i = Some s" "NUL \<notin> set s" "strs h a = Some (cblock s)" "a \<notin> str_addrs cs"
    using assms(1) by (auto simp: ident_owned_def)
  have "strs h |` (- str_addrs cs) = strs h' |` (- str_addrs cs')" using assms(2) by (simp add: frame_def)
  from outside_eqD [OF this s(4,3)] show ?thesis using Some s frame_lib(1) [OF assms(2)] by (simp add: ident_owned_def)
qed

lemma lib_rep_frame: "lib_rep h t i cs \<Longrightarrow> mdc_rep h' t cs' \<Longrightarrow> frame t h cs h' cs' \<Longrightarrow> lib_rep h' t i cs'"
  using ident_owned_frame [of h i cs t h' cs'] frame_lib(1) [of t h cs h' cs'] env_ok_frame [of t h cs h' cs'] by (simp add: lib_rep_def)

lemma lib_rep_init: "lib_rep h t i cs \<Longrightarrow> init_library attr h = Some h"
  by (simp add: lib_rep_def init_library_def)

section \<open>The retry macro\<close>

text \<open>An answer of the kernel after which the macro tries again.\<close>

definition retries :: "(int \<Rightarrow> int \<Rightarrow> bool) \<Rightarrow> write_answer \<Rightarrow> bool" where
  "retries retry ans = (case ans of WFail e \<Rightarrow> retry (- 1) e | WAccept n \<Rightarrow> False)"

lemma retries_simps [simp]: "retries retry (WFail e) = retry (- 1) e" "retries retry (WAccept n) = False"
  by (simp_all add: retries_def)

locale retry_policy =
  fixes retry :: "int \<Rightarrow> int \<Rightarrow> bool"
  assumes only_failures: "retry r e \<Longrightarrow> r < 0"
begin

text \<open>As soon as the kernel takes the data the loop ends; the failures before are repeated and
  leave no trace in the output.\<close>

lemma retry_until_accepted:
  assumes "\<forall>j < k. \<exists>e. write_answers h (write_calls h + j) = WFail e \<and> retry (- 1) e"
    "write_answers h (write_calls h + k) = WAccept n"
  shows "\<exists>e. temp_failure_retry retry data h = Some (int (min n (length data)),
    h\<lparr>write_calls := write_calls h + k + 1, out := out h @ [take n data], errno := e\<rparr>)"
  using assms
proof (induction k arbitrary: h)
  case 0
  then have "sys_write data h = (int (min n (length data)), h\<lparr>write_calls := write_calls h + 1, out := out h @ [take n data]\<rparr>)"
    by (simp add: sys_write_def)
  moreover have "\<not> retry (int (min n (length data))) e" for e using only_failures by force
  ultimately show ?case by (subst temp_failure_retry.simps) (auto intro: exI [of _ "errno h"])
next
  case (Suc k)
  obtain e where e: "write_answers h (write_calls h) = WFail e" "retry (- 1) e" using Suc.prems(1) by force
  let ?h = "h\<lparr>write_calls := Suc (write_calls h), errno := e\<rparr>"
  have "\<exists>e'. write_answers ?h (write_calls ?h + j) = WFail e' \<and> retry (- 1) e'" if "j < k" for j
    using Suc.prems(1) that by auto
  moreover have "write_answers ?h (write_calls ?h + k) = WAccept n" using Suc.prems(2) by simp
  ultimately obtain e' where "temp_failure_retry retry data ?h = Some (int (min n (length data)),
      ?h\<lparr>write_calls := write_calls ?h + k + 1, out := out ?h @ [take n data], errno := e'\<rparr>)"
    using Suc.IH [of ?h] by blast
  moreover have "temp_failure_retry retry data h = temp_failure_retry retry data ?h"
    using e by (subst temp_failure_retry.simps) (simp add: sys_write_def)
  ultimately show ?case by (intro exI [of _ e']) simp
qed

lemma retry_step:
  "temp_failure_retry retry data h = (case write_answers h (write_calls h) of
      WFail e \<Rightarrow> (let h1 = h\<lparr>write_calls := Suc (write_calls h), errno := e\<rparr> in
        if retry (- 1) e then temp_failure_retry retry data h1 else Some (- 1, h1))
    | WAccept n \<Rightarrow> Some (int (min n (length data)), h\<lparr>write_calls := Suc (write_calls h), out := out h @ [take n data]\<rparr>))"
proof (cases "write_answers h (write_calls h)")
  case (WAccept n)
  have "\<not> retry (int (min n (length data))) e" for e using only_failures by force
  then show ?thesis using WAccept by (subst temp_failure_retry.simps) (simp add: sys_write_def)
qed (subst temp_failure_retry.simps, simp add: sys_write_def)

lemma retry_returns:
  "\<not> retries retry (write_answers h (write_calls h + k)) \<Longrightarrow> \<exists>r. temp_failure_retry retry data h = Some r"
proof (induction k arbitrary: h)
  case 0
  then show ?case by (subst retry_step) (auto split: write_answer.splits)
next
  case (Suc k)
  then show ?case using Suc.IH [of "h\<lparr>write_calls := Suc (write_calls h), errno := e\<rparr>" for e]
    by (subst retry_step) (auto simp: Let_def split: write_answer.splits)
qed

lemma retry_only_if:
  assumes "temp_failure_retry retry data h = Some r" shows "\<exists>k. \<not> retries retry (write_answers h (write_calls h + k))"
proof -
  let ?P = "\<lambda>rt d h r. rt = retry \<longrightarrow> (\<exists>k. \<not> retries retry (write_answers h (write_calls h + k)))"
  have "?P retry data h r"
  proof (rule temp_failure_retry.raw_induct [OF _ assms, of ?P])
    fix self rt and d :: string and h :: "'a mdclog_scheme" and r
    assume ih: "\<And>rt d h r. self rt d h = Some r \<Longrightarrow> ?P rt d h r"
      and step: "(case sys_write d h of (r, h1) \<Rightarrow> if rt r (errno h1) then self rt d h1 else Some (r, h1)) = Some r"
    show "?P rt d h r"
    proof (cases "retries retry (write_answers h (write_calls h))")
      case False
      then show ?thesis by (metis add_0_right)
    next
      case True
      then obtain e where "write_answers h (write_calls h) = WFail e" "retry (- 1) e"
        by (cases "write_answers h (write_calls h)") simp_all
      then have "self rt d (h\<lparr>write_calls := Suc (write_calls h), errno := e\<rparr>) = Some r" if "rt = retry"
        using step that by (simp add: sys_write_def)
      then show ?thesis using ih by (fastforce intro: exI [of _ "Suc k" for k])
    qed
  qed
  then show ?thesis by simp
qed

end

interpretation retry_system: retry_policy retry_system
  by unfold_locales (simp add: retry_system_def)

interpretation retry_glibc: retry_policy retry_glibc
  by unfold_locales (simp add: retry_glibc_def)

section \<open>Initialisation\<close>

lemma default_identity_ok:
  assumes "heap_wf h" "\<forall>a. malloc_ok h a" "cstr (progname h) = Some pn" "2 * length pn + 1 < SIZE_MOD" "length pn \<le> INT_MAX"
  shows "\<exists>a n. default_identity h = Some ((set_cfg_identity (Some a) h)\<lparr>brk := n, strs := (strs h)(a \<mapsto> cblock (escape_str pn))\<rparr>) \<and>
    brk h \<le> a \<and> a < n"
proof -
  let ?a = "brk h" and ?n = "length (escape_str pn) + 1"
  define h1 where "h1 = h\<lparr>brk := Suc ?a, strs := (strs h)(?a \<mapsto> cblock pn)\<rparr>"
  have pn: "NUL \<notin> set pn" using cstr_SomeD [OF assms(3)] by blast
  then have c: "cstr (cblock pn) = Some pn" by simp
  have dup: "strdup (progname h) h = Some (Some ?a, h1)" using assms(2,3) by (simp add: h1_def)
  have sp: "mdclog_internal_contains_special_characters (cblock pn) = Some (escape_str pn \<noteq> pn)"
    using contains_special_correct [OF c assms(5)] by (auto simp: escape_str_id_iff)
  show ?thesis
  proof (cases "escape_str pn = pn")
    case True
    then have "default_identity h = Some (set_cfg_identity (Some ?a) h1)"
      unfolding default_identity_def dup by (simp add: h1_def sp)
    then show ?thesis using True
      by (intro exI [of _ ?a] exI [of _ "Suc ?a"]) (simp add: h1_def set_cfg_identity_def)
  next
    case False
    have len: "?n < SIZE_MOD" using length_escape_str_le [of pn] assms(4) by simp
    have e: "mdclog_internal_escape (map (garbage h (Suc ?a)) [0..<?n]) 0 ?n (cblock pn) =
        Some (length (escape_str pn), False, cblock (escape_str pn))"
      by (rule escape_exact [OF c len]) simp
    have f: "strs h ?a = None" "strs h (Suc ?a) = None" using assms(1) by (simp_all add: heap_wf_def)
    have "default_identity h = Some ((set_cfg_identity (Some (Suc ?a)) h)\<lparr>brk := Suc (Suc ?a),
        strs := (strs h)(Suc ?a \<mapsto> cblock (escape_str pn))\<rparr>)"
      unfolding default_identity_def dup using assms(2) False e f
      by (simp add: h1_def sp escaped_size_correct [OF c len] malloc_block_def new_addr_def store_block_def set_cfg_identity_def
        fun_upd_twist fun_upd_idem del: One_nat_def)
    then show ?thesis by (intro exI [of _ "Suc ?a"] exI [of _ "Suc (Suc ?a)"]) simp
  qed
qed

text \<open>The heap once the identity of an earlier initialisation has been released.\<close>

definition init_released :: "'a mdclog_scheme \<Rightarrow> 'a mdclog_scheme" where
  "init_released h = (set_cfg_identity None h)\<lparr>strs := strs h |` (- set_option (cfg_identity (configuration h)))\<rparr>"

lemma restrict_one: "m |` (- {a}) = m(a := None)"
  by (auto simp: restrict_map_def fun_eq_iff)

lemma key_created_idem: "key_created h \<Longrightarrow> h\<lparr>key_created := True\<rparr> = h"
  by simp

lemma init_mdc_ok:
  assumes "once_ec h = 0" "key_create_ec h = 0" shows "mdclog_internal_init_mdc h = Some (0, h\<lparr>key_created := True\<rparr>)"
  using assms by (cases "key_created h") (simp_all add: mdclog_internal_init_mdc_def create_pthread_key_def key_created_idem)

lemma init_locked_released:
  assumes "ident_owned h i cs"
  shows "init_locked attr h = do {
      identity \<leftarrow> attr_ident attr (init_released h);
      h3 \<leftarrow> (case (attr, identity) of
          (Some a, Some i) \<Rightarrow> Some ((set_cfg_identity (Some i) (init_released h))\<lparr>attrs := (attrs (init_released h))(a \<mapsto> \<lparr>attr_identity = None\<rparr>)\<rparr>)
        | _ \<Rightarrow> default_identity (init_released h));
      Some (set_init_done 1 h3) }"
proof (cases "cfg_identity (configuration h)")
  case None
  then have "init_released h = h" by (simp add: init_released_def set_cfg_identity_def)
  then show ?thesis using None by (simp add: init_locked_def cong: option.case_cong)
next
  case (Some b)
  then have "strs h b \<noteq> None" using assms by (auto simp: ident_owned_def)
  then have "free_block (Some b) h = Some (h\<lparr>strs := (strs h)(b := None)\<rparr>)" by (auto simp: free_block_def)
  moreover have "set_cfg_identity None (h\<lparr>strs := (strs h)(b := None)\<rparr>) = init_released h"
    using Some by (simp add: init_released_def set_cfg_identity_def restrict_one)
  ultimately show ?thesis using Some by (simp add: init_locked_def)
qed

lemma init_released_rep:
  assumes "mdc_rep h t cs" "env_ok t h" "ident_owned h i cs" shows "mdc_rep (init_released h) t cs" "env_ok t (init_released h)"
proof -
  have "seg (nodes h) (strs h |` (- set_option (cfg_identity (configuration h)))) None cs None"
  proof (cases "cfg_identity (configuration h)")
    case (Some b)
    then have "b \<notin> str_addrs cs" using assms(3) by (auto simp: ident_owned_def)
    then show ?thesis using mdc_repD(4) [OF assms(1)] Some by (simp add: restrict_one)
  qed (use mdc_repD(4) [OF assms(1)] in simp)
  moreover have "heap_wf (init_released h)" using mdc_repD(1) [OF assms(1)] by (auto simp: heap_wf_def init_released_def set_cfg_identity_def restrict_map_def)
  ultimately show "mdc_rep (init_released h) t cs"
    using assms(1) by (auto simp: mdc_rep_def init_released_def set_cfg_identity_def split: option.splits)
  show "env_ok t (init_released h)" using assms(2) by (simp add: env_ok_def init_released_def set_cfg_identity_def)
qed

text \<open>A library that owns a new identity block.\<close>

lemma lib_rep_new_identity:
  assumes "mdc_rep h t cs" "env_ok t h" "NUL \<notin> set s" "a \<notin> str_addrs cs" "a < n" "brk h \<le> n"
    "nodes h' = nodes h" "lists h' = lists h" "tls h' = tls h" "key_created h'" "malloc_ok h' = malloc_ok h" "setspecific_ec h' = setspecific_ec h"
    "brk h' = n" "strs h' = (strs h)(a \<mapsto> cblock s)" "cfg_identity (configuration h') = Some a" "init_done (configuration h') \<noteq> 0"
  shows "lib_rep h' t (Some s) cs"
proof -
  have "seg (nodes h') (strs h') None cs None" using mdc_repD(4) [OF assms(1)] assms(4,7,14) by simp
  moreover have "heap_wf h'" using mdc_repD(1) [OF assms(1)] assms(5-8,13,14) by (auto simp: heap_wf_def)
  ultimately have "mdc_rep h' t cs" using assms(1,8-10) by (auto simp: mdc_rep_def split: option.splits)
  then show ?thesis using assms(2-4,11,12,14-16) by (simp add: lib_rep_def env_ok_def ident_owned_def)
qed

text \<open>What initialisation leaves alone.\<close>

definition same_lib :: "'a mdclog_scheme \<Rightarrow> 'a mdclog_scheme \<Rightarrow> bool" where
  "same_lib h h' \<longleftrightarrow> nodes h' = nodes h \<and> lists h' = lists h \<and> tls h' = tls h \<and> current_level h' = current_level h \<and>
     out h' = out h \<and> write_answers h' = write_answers h \<and> write_calls h' = write_calls h \<and>
     progname h' = progname h \<and> once_ec h' = once_ec h \<and> key_create_ec h' = key_create_ec h \<and>
     log_format_init_done (configuration h') = log_format_init_done (configuration h) \<and> mdclog.more h' = mdclog.more h"

lemma init_locked_default:
  assumes "mdc_rep h t cs" "env_ok t h" "ident_owned h i cs" "cstr (progname h) = Some pn" "2 * length pn + 1 < SIZE_MOD" "length pn \<le> INT_MAX"
    "attr_ident attr h = Some None"
  shows "\<exists>h' a. init_locked attr h = Some h' \<and> lib_rep h' t (Some (escape_str pn)) cs \<and> same_lib h h' \<and> attrs h' = attrs h \<and>
    cfg_identity (configuration h') = Some a \<and> strs h a = None \<and>
    strs h' = (strs h |` (- set_option (cfg_identity (configuration h))))(a \<mapsto> cblock (escape_str pn))"
proof -
  let ?h = "init_released h"
  note rep = init_released_rep [OF assms(1-3)]
  have "cstr (progname ?h) = Some pn" "\<forall>a. malloc_ok ?h a"
    using assms(4) rep(2) by (simp_all add: init_released_def set_cfg_identity_def env_ok_def)
  then obtain a n where d: "default_identity ?h = Some ((set_cfg_identity (Some a) ?h)\<lparr>brk := n, strs := (strs ?h)(a \<mapsto> cblock (escape_str pn))\<rparr>)"
    "brk ?h \<le> a" "a < n"
    using default_identity_ok [OF mdc_repD(1) [OF rep(1)]] assms(5,6) by blast
  define h' where "h' = set_init_done 1 ((set_cfg_identity (Some a) ?h)\<lparr>brk := n, strs := (strs ?h)(a \<mapsto> cblock (escape_str pn))\<rparr>)"
  have "attr_ident attr ?h = Some None"
    using assms(7) by (cases attr) (simp_all add: attr_ident_def init_released_def set_cfg_identity_def)
  then have "init_locked attr h = Some h'"
    using init_locked_released [OF assms(3), of attr] d(1) by (cases attr) (simp_all add: h'_def)
  moreover have "a \<notin> str_addrs cs" using mdc_rep_below(2) [OF rep(1), of a] d(2) by auto
  then have "lib_rep h' t (Some (escape_str pn)) cs"
    using d(2,3) mdc_repD(2) [OF rep(1)]
    by (intro lib_rep_new_identity [OF rep, of _ a n]) (simp_all add: h'_def set_init_done_def set_cfg_identity_def)
  moreover have "strs h a = None" using mdc_repD(1) [OF assms(1)] d(2) by (simp add: heap_wf_def init_released_def set_cfg_identity_def)
  ultimately show ?thesis
    by (intro exI [of _ h'] exI [of _ a])
      (cases h, simp add: same_lib_def h'_def set_init_done_def set_cfg_identity_def init_released_def)
qed

lemma init_locked_attr:
  assumes "mdc_rep h t cs" "env_ok t h" "ident_owned h i cs" "attrs h a = Some \<lparr>attr_identity = Some p\<rparr>"
    "strs h p = Some (cblock s)" "NUL \<notin> set s" "p \<notin> str_addrs cs" "cfg_identity (configuration h) \<noteq> Some p"
  shows "\<exists>h'. init_locked (Some a) h = Some h' \<and> lib_rep h' t (Some s) cs \<and> same_lib h h' \<and>
    attrs h' = (attrs h)(a \<mapsto> \<lparr>attr_identity = None\<rparr>) \<and> cfg_identity (configuration h') = Some p \<and>
    strs h' = strs h |` (- set_option (cfg_identity (configuration h)))"
proof -
  let ?h = "init_released h"
  note rep = init_released_rep [OF assms(1-3)]
  define h' where "h' = set_init_done 1 ((set_cfg_identity (Some p) ?h)\<lparr>attrs := (attrs ?h)(a \<mapsto> \<lparr>attr_identity = None\<rparr>)\<rparr>)"
  have "attr_ident (Some a) ?h = Some (Some p)" using assms(4) by (simp add: attr_ident_def init_released_def set_cfg_identity_def)
  then have "init_locked (Some a) h = Some h'"
    using init_locked_released [OF assms(3), of "Some a"] by (simp add: h'_def)
  moreover have S: "strs ?h p = Some (cblock s)"
    using assms(5,8) by (auto simp: init_released_def restrict_map_def)
  then have "p < brk ?h" using mdc_repD(1) [OF rep(1)] by (force simp: heap_wf_def not_le [symmetric])
  then have "lib_rep h' t (Some s) cs"
    using assms(6,7) mdc_repD(2) [OF rep(1)] S
    by (intro lib_rep_new_identity [OF rep, of _ p "brk ?h"]) (simp_all add: h'_def set_init_done_def set_cfg_identity_def fun_upd_idem)
  ultimately show ?thesis
    by (intro exI [of _ h']) (cases h, simp add: same_lib_def h'_def set_init_done_def set_cfg_identity_def init_released_def)
qed

text \<open>An initialised library is a special case of one that may be waiting for its initialisation.\<close>

lemma lib_rep_raw: "lib_rep h t i cs \<Longrightarrow> once_ec h = 0 \<Longrightarrow> key_create_ec h = 0 \<Longrightarrow> lib_raw h t i cs"
  using key_created_idem [OF mdc_repD(2), of h t cs] by (simp add: lib_rep_def lib_raw_def)

lemma lib_raw_rep: "lib_raw h t i cs \<Longrightarrow> key_created h \<Longrightarrow> init_done (configuration h) \<noteq> 0 \<Longrightarrow> lib_rep h t i cs"
  using key_created_idem [of h] by (simp add: lib_rep_def lib_raw_def)

text \<open>The whole call, from a library that may be waiting for its first initialisation.\<close>

lemma lib_raw_keyed:
  assumes "lib_raw h t i cs"
  shows "mdc_rep (h\<lparr>key_created := True\<rparr>) t cs" "env_ok t (h\<lparr>key_created := True\<rparr>)" "ident_owned (h\<lparr>key_created := True\<rparr>) i cs"
    "mdclog_internal_init_mdc h = Some (0, h\<lparr>key_created := True\<rparr>)"
  using assms init_mdc_ok [of h] by (auto simp: lib_raw_def env_ok_def ident_owned_def split: option.splits)

lemma init_library_unnamed:
  assumes "lib_raw h t i cs" "init_done (configuration h) = 0" "cstr (progname h) = Some pn" "2 * length pn + 1 < SIZE_MOD" "length pn \<le> INT_MAX"
    "attr_ident attr h = Some None"
  shows "\<exists>h' a. init_library attr h = Some h' \<and> lib_rep h' t (Some (escape_str pn)) cs \<and> same_lib h h' \<and> attrs h' = attrs h \<and>
    cfg_identity (configuration h') = Some a \<and> strs h a = None \<and>
    strs h' = (strs h |` (- set_option (cfg_identity (configuration h))))(a \<mapsto> cblock (escape_str pn))"
proof -
  note k = lib_raw_keyed [OF assms(1)]
  have p: "cstr (progname (h\<lparr>key_created := True\<rparr>)) = Some pn" "attr_ident attr (h\<lparr>key_created := True\<rparr>) = Some None"
    using assms(3,6) by (simp_all add: attr_ident_def split: option.splits)
  from init_locked_default [OF k(1-3) p(1) assms(4,5) p(2)] show ?thesis
    using assms(2) k(4) by (cases h) (auto simp: init_library_def same_lib_def)
qed

lemma init_library_default:
  assumes "lib_raw h t i cs" "init_done (configuration h) = 0" "cstr (progname h) = Some pn" "2 * length pn + 1 < SIZE_MOD" "length pn \<le> INT_MAX"
  shows "\<exists>h' a. init_library None h = Some h' \<and> lib_rep h' t (Some (escape_str pn)) cs \<and> same_lib h h' \<and> attrs h' = attrs h \<and>
    strs h' = (strs h |` (- set_option (cfg_identity (configuration h))))(a \<mapsto> cblock (escape_str pn))"
  using init_library_unnamed [OF assms, of None] by (auto simp: attr_ident_def)

lemma init_library_attr:
  assumes "lib_raw h t i cs" "init_done (configuration h) = 0" "attrs h a = Some \<lparr>attr_identity = Some p\<rparr>"
    "strs h p = Some (cblock s)" "NUL \<notin> set s" "p \<notin> str_addrs cs" "cfg_identity (configuration h) \<noteq> Some p"
  shows "\<exists>h'. init_library (Some a) h = Some h' \<and> lib_rep h' t (Some s) cs \<and> same_lib h h' \<and>
    attrs h' = (attrs h)(a \<mapsto> \<lparr>attr_identity = None\<rparr>) \<and> cfg_identity (configuration h') = Some p \<and>
    strs h' = strs h |` (- set_option (cfg_identity (configuration h)))"
proof -
  note k = lib_raw_keyed [OF assms(1)]
  have "attrs (h\<lparr>key_created := True\<rparr>) a = Some \<lparr>attr_identity = Some p\<rparr>" "strs (h\<lparr>key_created := True\<rparr>) p = Some (cblock s)"
    "cfg_identity (configuration (h\<lparr>key_created := True\<rparr>)) \<noteq> Some p" using assms(3,4,7) by simp_all
  from init_locked_attr [OF k(1-3) this(1,2) assms(5,6) this(3)] show ?thesis
    using assms(2) k(4) by (cases h) (auto simp: init_library_def same_lib_def)
qed

section \<open>Writing\<close>

lemma get_first_mdc_ok:
  assumes "mdc_rep h t cs" "env_ok t h"
  shows "\<exists>h'. mdclog_internal_get_first_mdc t h = Some (first_ptr cs None, h') \<and> mdc_rep h' t cs \<and> frame t h cs h' cs"
proof -
  obtain l h1 where g: "get_list t h = Some (Some l, h1)" "mdc_rep h1 t cs" "frame t h cs h1 cs" "tls h1 t = Some l"
    using get_list_ok [OF assms] by blast
  then show ?thesis using mdc_repD(5) [OF g(2,4)] by (simp add: mdclog_internal_get_first_mdc_def list_head_def)
qed

lemma seg_det:
  assumes "seg N S q cs z" "seg N' S' q cs z"
  shows "a \<in> node_addrs cs \<Longrightarrow> N' a = N a" "a \<in> str_addrs cs \<Longrightarrow> S' a = S a"
  using assms by (induction cs arbitrary: q) auto

text \<open>An operation that keeps the entries where they are changes no block and no entry.\<close>

lemma frame_same:
  assumes "mdc_rep h t cs" "mdc_rep h' t cs" "frame t h cs h' cs"
  shows "strs h' = strs h" "nodes h' = nodes h"
proof -
  note s = seg_det [OF mdc_repD(4) [OF assms(1)] mdc_repD(4) [OF assms(2)]]
  have f: "strs h |` (- str_addrs cs) = strs h' |` (- str_addrs cs)" "nodes h |` (- node_addrs cs) = nodes h' |` (- node_addrs cs)"
    using assms(3) by (simp_all add: frame_def)
  show "strs h' = strs h"
  proof
    fix a show "strs h' a = strs h a" using s(2) [of a] fun_cong [OF f(1), of a] by (cases "a \<in> str_addrs cs") (auto simp: restrict_map_def)
  qed
  show "nodes h' = nodes h"
  proof
    fix a show "nodes h' a = nodes h a" using s(1) [of a] fun_cong [OF f(2), of a] by (cases "a \<in> node_addrs cs") (auto simp: restrict_map_def)
  qed
qed

lemma mdc_rep_cong:
  assumes "mdc_rep h t cs" "strs h' = strs h" "nodes h' = nodes h" "lists h' = lists h" "tls h' = tls h" "key_created h' = key_created h" "brk h \<le> brk h'"
  shows "mdc_rep h' t cs"
  using assms by (auto simp: mdc_rep_def heap_wf_def split: option.splits)

lemma lib_rep_cong:
  assumes "lib_rep h t i cs" "strs h' = strs h" "nodes h' = nodes h" "lists h' = lists h" "tls h' = tls h" "key_created h' = key_created h"
    "brk h \<le> brk h'" "malloc_ok h' = malloc_ok h" "setspecific_ec h' = setspecific_ec h" "configuration h' = configuration h"
  shows "lib_rep h' t i cs"
  using assms mdc_rep_cong [OF _ assms(2-7)] by (auto simp: lib_rep_def env_ok_def ident_owned_def split: option.splits)

text \<open>The identity as \<open>mdclog_write\<close> hands it to the formatter.\<close>

lemma identity_deref:
  assumes "ident_owned h i cs"
  shows "\<exists>identity. (case cfg_identity (configuration h) of None \<Rightarrow> Some None | Some a \<Rightarrow> do { b \<leftarrow> strs h a; Some (Some b) }) = Some identity \<and>
    ident_str identity i"
  using assms by (auto simp: ident_owned_def ident_str_def split: option.splits)

text \<open>What a call of \<open>mdclog_write\<close> needs to produce an entry.\<close>

definition write_args ::
  "'a mdclog_scheme \<Rightarrow> thread \<Rightarrow> string option \<Rightarrow> string \<Rightarrow> cell list \<Rightarrow> (string \<times> string) list \<Rightarrow> string \<Rightarrow> block \<Rightarrow> bool" where
  "write_args h t i name cs kvs s buffer \<longleftrightarrow> lib_rep h t i cs \<and> ident_text i = escape_str name \<and>
     pairs cs = map (apsnd escape_str) kvs \<and> list_all (\<lambda>(k, v). escape_str k = k) kvs \<and>
     NUL \<notin> set s \<and> length s < INT_MAX \<and> length buffer = PIPE_BUF"

lemma append_newline:
  assumes "writes_at buffer 0 len text b" "length buffer = Suc len"
  shows "wr b (length text) NEWLINE = Some (b[length text := NEWLINE])"
    "take (length text + 1) (b[length text := NEWLINE]) = text @ [NEWLINE]"
  using assms take_update_at [of "length text" b NEWLINE] by (auto simp: writes_at_def)

text \<open>The line a call produces, or none when the members before the message leave too little room.\<close>

definition log_lines :: "timeval \<Rightarrow> string option \<Rightarrow> severity \<Rightarrow> (string \<times> string) list \<Rightarrow> string \<Rightarrow> string list" where
  "log_lines tv i severity ps s = (if length (entry_head (PIPE_BUF - 1) tv i severity ps) + 20 = PIPE_BUF - 1 then []
     else [entry_text (PIPE_BUF - 1) tv i severity ps s @ [NEWLINE]])"

lemma format_entry_either:
  assumes "mdc_rep h t cs" "ident_str identity i" "length buffer = PIPE_BUF" "NUL \<notin> set s" "length s < INT_MAX" "malloc_ok h (brk h)"
  shows "log_lines tv i severity (pairs cs) s = [] \<and>
      (\<exists>b. mdclog_internal_format_to_json_str buffer (PIPE_BUF - 1) tv identity severity (first_ptr cs None) (Formatted s) h = Some (- 1, b, h)) \<or>
    (\<exists>line b. log_lines tv i severity (pairs cs) s = [line @ [NEWLINE]] \<and> line = entry_text (PIPE_BUF - 1) tv i severity (pairs cs) s \<and>
      mdclog_internal_format_to_json_str buffer (PIPE_BUF - 1) tv identity severity (first_ptr cs None) (Formatted s) h =
        Some (int (length line), b, h\<lparr>brk := Suc (brk h)\<rparr>) \<and> 0 < length line \<and> writes_at buffer 0 (PIPE_BUF - 1) line b)"
proof -
  have len: "20 < PIPE_BUF - 1" "PIPE_BUF - 1 \<le> INT_MAX" "PIPE_BUF - 1 \<le> length buffer" "\<not> PIPE_BUF - 1 < MIN_BUFFER_LENGTH"
    using assms(3) by (simp_all add: INT_MAX_def)
  have le: "length (entry_head (PIPE_BUF - 1) tv i severity (pairs cs)) + 20 \<le> PIPE_BUF - 1" using write_head_ok [OF assms(1,2) len(1-3)] by blast
  show ?thesis
  proof (cases "length (entry_head (PIPE_BUF - 1) tv i severity (pairs cs)) + 20 = PIPE_BUF - 1")
    case True
    then show ?thesis using format_log_entry_dropped [OF assms(1,2) len(1-3) True, of "Formatted s"] len(4)
      by (auto simp: log_lines_def mdclog_internal_format_to_json_str_def)
  next
    case False
    then have "length (entry_head (PIPE_BUF - 1) tv i severity (pairs cs)) + 20 < PIPE_BUF - 1" using le by simp
    from format_log_entry_ok [OF assms(1,2) len(1-3) assms(4-6) this] obtain b where
      b: "format_log_entry buffer (PIPE_BUF - 1) tv identity severity (first_ptr cs None) (Formatted s) h =
        Some (int (length (entry_text (PIPE_BUF - 1) tv i severity (pairs cs) s)), b, h\<lparr>brk := Suc (brk h)\<rparr>)"
      "writes_at buffer 0 (PIPE_BUF - 1) (entry_text (PIPE_BUF - 1) tv i severity (pairs cs) s) b" by blast
    moreover have "0 < length (entry_text (PIPE_BUF - 1) tv i severity (pairs cs) s)" by (simp add: entry_text_def Let_def)
    ultimately show ?thesis using False len(4) unfolding log_lines_def mdclog_internal_format_to_json_str_def if_not_P [OF len(4)] if_not_P [OF False] by blast
  qed
qed

lemma mdclog_write_text:
  assumes lib: "lib_rep h t i cs" and msg: "NUL \<notin> set s" "length s < INT_MAX" and buf: "length buffer = PIPE_BUF"
    and level: "severity \<le> current_level h" and retry: "retry_policy retry"
    and answers: "\<forall>j < k. \<exists>e. write_answers h (write_calls h + j) = WFail e \<and> retry (- 1) e"
      "write_answers h (write_calls h + k) = WAccept n"
  shows "\<exists>h2. mdc_rep h2 t cs \<and> frame t h cs h2 cs \<and>
    (case log_lines tv i severity (pairs cs) s of
       [] \<Rightarrow> mdclog_write retry t severity (Formatted s) tv buffer h = Some h2
     | line # _ \<Rightarrow> length line < PIPE_BUF \<and> (\<exists>e. mdclog_write retry t severity (Formatted s) tv buffer h =
         Some (h2\<lparr>brk := Suc (brk h2), write_calls := write_calls h + k + 1, out := out h @ [take n line], errno := e\<rparr>)))"
proof -
  have rep: "mdc_rep h t cs" "env_ok t h" "ident_owned h i cs" using lib by (simp_all add: lib_rep_def)
  obtain h2 where g: "mdclog_internal_get_first_mdc t h = Some (first_ptr cs None, h2)" "mdc_rep h2 t cs" "frame t h cs h2 cs"
    using get_first_mdc_ok [OF rep(1,2)] by blast
  obtain identity where id: "(case cfg_identity (configuration h2) of None \<Rightarrow> Some None | Some a \<Rightarrow> do { b \<leftarrow> strs h2 a; Some (Some b) }) = Some identity"
    "ident_str identity i" using identity_deref [OF ident_owned_frame [OF rep(3) g(3)]] by blast
  have ok: "malloc_ok h2 (brk h2)" using env_ok_frame [OF rep(2) g(3)] by (simp add: env_ok_def)
  note start = lib_rep_init [OF lib, of None] g(1) id(1)
  from format_entry_either [OF g(2) id(2) buf msg ok, of tv severity] show ?thesis
  proof (elim disjE exE conjE)
    fix b assume "log_lines tv i severity (pairs cs) s = []"
      "mdclog_internal_format_to_json_str buffer (PIPE_BUF - 1) tv identity severity (first_ptr cs None) (Formatted s) h2 = Some (- 1, b, h2)"
    moreover from this(2) have "mdclog_write retry t severity (Formatted s) tv buffer h = Some h2"
      unfolding mdclog_write_def using level start by simp
    ultimately show ?thesis using g(2,3) by (intro exI [of _ h2]) simp
  next
    fix line b assume f: "log_lines tv i severity (pairs cs) s = [line @ [NEWLINE]]"
      "mdclog_internal_format_to_json_str buffer (PIPE_BUF - 1) tv identity severity (first_ptr cs None) (Formatted s) h2 =
        Some (int (length line), b, h2\<lparr>brk := Suc (brk h2)\<rparr>)" "0 < length line" "writes_at buffer 0 (PIPE_BUF - 1) line b"
    have nl: "wr b (length line) NEWLINE = Some (b[length line := NEWLINE])"
      "take (length line + 1) (b[length line := NEWLINE]) = line @ [NEWLINE]"
      using append_newline [OF f(4)] buf by simp_all
    let ?h3 = "h2\<lparr>brk := Suc (brk h2)\<rparr>"
    have "\<forall>j < k. \<exists>e. write_answers ?h3 (write_calls ?h3 + j) = WFail e \<and> retry (- 1) e" "write_answers ?h3 (write_calls ?h3 + k) = WAccept n"
      using answers frame_lib [OF g(3)] by simp_all
    from retry_policy.retry_until_accepted [OF retry this, of "line @ [NEWLINE]"]
    obtain e where r: "temp_failure_retry retry (line @ [NEWLINE]) ?h3 = Some (int (min n (length (line @ [NEWLINE]))),
        ?h3\<lparr>write_calls := write_calls ?h3 + k + 1, out := out ?h3 @ [take n (line @ [NEWLINE])], errno := e\<rparr>)" by blast
    have "mdclog_write retry t severity (Formatted s) tv buffer h =
        Some (?h3\<lparr>write_calls := write_calls ?h3 + k + 1, out := out ?h3 @ [take n (line @ [NEWLINE])], errno := e\<rparr>)"
      unfolding mdclog_write_def using level start f(2,3) nl r by simp
    moreover have "length (line @ [NEWLINE]) < PIPE_BUF" using writes_atD(4) [OF f(4)] by simp
    ultimately show ?thesis using g(2,3) f(1) frame_lib(5,7) [OF g(3)] by (intro exI [of _ h2]) auto
  qed
qed

lemma mdclog_write_ok:
  assumes args: "write_args h t i name cs kvs s buffer" and level: "severity \<le> current_level h"
    and room: "length (entry_head (PIPE_BUF - 1) tv i severity (pairs cs)) + 20 < PIPE_BUF - 1"
    and retry: "retry_policy retry"
    and answers: "\<forall>j < k. \<exists>e. write_answers h (write_calls h + j) = WFail e \<and> retry (- 1) e"
      "write_answers h (write_calls h + k) = WAccept n"
  shows "\<exists>h' text. mdclog_write retry t severity (Formatted s) tv buffer h = Some h' \<and> lib_rep h' t i cs \<and>
    out h' = out h @ [take n (text @ [NEWLINE])] \<and> write_calls h' = write_calls h + k + 1 \<and> length text < PIPE_BUF - 1 \<and>
    read_entry text = Some (entry_members (PIPE_BUF - 1) tv i name severity kvs s) \<and>
    strs h' = strs h \<and> nodes h' = nodes h"
proof -
  have lib: "lib_rep h t i cs" "ident_text i = escape_str name" "pairs cs = map (apsnd escape_str) kvs" "list_all (\<lambda>(k, v). escape_str k = k) kvs"
    "NUL \<notin> set s" "length s < INT_MAX" "length buffer = PIPE_BUF" using args by (simp_all add: write_args_def)
  define line where "line = entry_text (PIPE_BUF - 1) tv i severity (pairs cs) s"
  have "log_lines tv i severity (pairs cs) s = [line @ [NEWLINE]]" using room by (simp add: log_lines_def line_def)
  with mdclog_write_text [OF lib(1,5-7) level retry answers, of tv] obtain h2 e where
    w: "mdc_rep h2 t cs" "frame t h cs h2 cs" "length (line @ [NEWLINE]) < PIPE_BUF" "mdclog_write retry t severity (Formatted s) tv buffer h =
      Some (h2\<lparr>brk := Suc (brk h2), write_calls := write_calls h + k + 1, out := out h @ [take n (line @ [NEWLINE])], errno := e\<rparr>)"
    (is "_ = Some ?h") by auto
  have "lib_rep ?h t i cs" by (rule lib_rep_cong [OF lib_rep_frame [OF lib(1) w(1,2)]]) simp_all
  moreover have "mdc_rep h t cs" using lib(1) by (simp add: lib_rep_def)
  then have "strs h2 = strs h" "nodes h2 = nodes h" using frame_same w(1,2) by blast+
  moreover have "MIN_BUFFER_LENGTH \<le> PIPE_BUF - 1" by simp
  then have "line = show_entry (entry_members (PIPE_BUF - 1) tv i name severity kvs s)"
    unfolding line_def lib(3) by (rule entry_text_show [OF _ lib(2,4)])
  then have "read_entry line = Some (entry_members (PIPE_BUF - 1) tv i name severity kvs s)"
    using read_show_entry [OF entry_members_wf [OF lib(4)]] by simp
  ultimately show ?thesis using w(3,4) by (intro exI [of _ ?h] exI [of _ line]) simp
qed

lemma lib_rep_new_block:
  assumes "lib_rep h t i cs" "strs h' = (strs h)(brk h \<mapsto> b)" "nodes h' = nodes h" "lists h' = lists h" "tls h' = tls h"
    "key_created h' = key_created h" "brk h' = Suc (brk h)" "malloc_ok h' = malloc_ok h" "setspecific_ec h' = setspecific_ec h"
    "configuration h' = configuration h"
  shows "lib_rep h' t i cs"
proof -
  have rep: "mdc_rep h t cs" using assms(1) by (simp add: lib_rep_def)
  have f: "brk h \<notin> str_addrs cs" "strs h (brk h) = None"
    using mdc_rep_below(2) [OF rep, of "brk h"] heap_wf_fresh(1) [OF mdc_repD(1) [OF rep]] by auto
  have "seg (nodes h') (strs h') None cs None" using mdc_repD(4) [OF rep] assms(2,3) f by simp
  moreover have "heap_wf h'" using mdc_repD(1) [OF rep] assms(2-4,7) by (auto simp: heap_wf_def)
  ultimately have "mdc_rep h' t cs" using rep assms(4-6) by (auto simp: mdc_rep_def split: option.splits)
  moreover have "ident_owned h' i cs" using assms(1,2,10) f(2) by (auto simp: lib_rep_def ident_owned_def split: option.splits)
  ultimately show ?thesis using assms(1,8-10) by (simp add: lib_rep_def env_ok_def)
qed

section \<open>Attributes\<close>

lemma bad_ident_eq:
  assumes "cstr b = Some s" "length s \<le> INT_MAX"
  shows "bad_ident b = Some (escape_str s \<noteq> s \<or> IDENTITY_MAX_LENGTH < length s)"
  using contains_special_correct [OF assms] assms(1) escape_str_id_iff [of s] by (auto simp: bad_ident_def)

lemma attr_set_ident_ok:
  assumes "attrs h a = Some x" "cstr b = Some s" "length s \<le> IDENTITY_MAX_LENGTH" "escape_str s = s" "malloc_ok h (brk h)"
  shows "mdclog_attr_set_ident (Some a) (Some b) h = Some (0, h\<lparr>brk := Suc (brk h), strs := (strs h)(brk h \<mapsto> cblock s),
    attrs := (attrs h)(a \<mapsto> \<lparr>attr_identity = Some (brk h)\<rparr>)\<rparr>)"
proof -
  have "bad_ident b = Some False" using bad_ident_eq [OF assms(2)] assms(3,4) by (simp add: INT_MAX_def)
  then show ?thesis using assms by (simp add: mdclog_attr_set_ident_def)
qed

text \<open>An identity that passed the check is printed as it is.\<close>

lemma ident_text_valid: "length s \<le> IDENTITY_MAX_LENGTH \<Longrightarrow> escape_str s = s \<Longrightarrow> ident_text (Some s) = escape_str s"
  by (simp add: ident_text_def)

section \<open>The context\<close>

lemma mdc_add_ok:
  assumes "lib_rep h t i cs" "c_string k" "c_string v" "escape_str k = k" "length k \<le> INT_MAX" "cstr value = Some v"
  shows "\<exists>h' cs'. mdclog_mdc_add t (Some (cblock k)) (Some value) h = Some (0, h') \<and> lib_rep h' t i cs' \<and>
    frame t h cs h' cs' \<and> pairs cs' = put_spec k (escape_str v) (pairs cs)"
proof -
  have rep: "mdc_rep h t cs" "env_ok t h" using assms(1) by (simp_all add: lib_rep_def)
  have "mdclog_internal_contains_special_characters (cblock k) = Some False"
    using contains_special_correct [OF c_stringD(1) [OF assms(2)] assms(5)] assms(4) by (auto simp: escape_str_id_iff)
  moreover obtain h' cs' where "mdclog_internal_put_mdc t (cblock k) value h = Some (0, h')" "mdc_rep h' t cs'" "frame t h cs h' cs'"
    "pairs cs' = put_spec k (escape_str v) (pairs cs)"
    using put_mdc_ok [OF rep c_stringD(1) [OF assms(2)] assms(6) c_stringD(2) [OF assms(3)]] by blast
  ultimately show ?thesis using lib_rep_init [OF assms(1), of None] lib_rep_frame [OF assms(1)]
    by (auto simp: mdclog_mdc_add_def simp del: put_spec.simps)
qed

text \<open>A block that the caller of an operation allocates before it and frees after it leaves no trace.\<close>

definition new_block :: "block \<Rightarrow> 'a heap_scheme \<Rightarrow> 'a heap_scheme" where
  "new_block b h = h\<lparr>brk := Suc (brk h), strs := (strs h)(brk h \<mapsto> b)\<rparr>"

definition release :: "addr \<Rightarrow> 'a heap_scheme \<Rightarrow> 'a heap_scheme" where
  "release a h = h\<lparr>strs := (strs h)(a := None)\<rparr>"

lemma outside_temp:
  assumes "m(a \<mapsto> b) |` (- A) = m' |` (- A')" "m a = None" "a \<notin> A" "a \<notin> A'"
  shows "m |` (- A) = m'(a := None) |` (- A')"
proof
  fix x show "(m |` (- A)) x = (m'(a := None) |` (- A')) x"
    using fun_cong [OF assms(1), of x] assms(2-4) by (cases "x = a") (auto simp: restrict_map_def split: if_splits)
qed

lemma mdc_rep_fresh: "mdc_rep h t cs \<Longrightarrow> strs h (brk h) = None \<and> brk h \<notin> str_addrs cs"
  using mdc_rep_below(2) [of h t cs "brk h"] heap_wf_fresh(1) [OF mdc_repD(1)] by auto

lemma mdc_rep_new_block: "mdc_rep h t cs \<Longrightarrow> mdc_rep (new_block b h) t cs"
  using mdc_rep_fresh [of h t cs] by (auto simp: mdc_rep_def new_block_def heap_wf_def split: option.splits)

lemma mdc_rep_release: "mdc_rep h t cs \<Longrightarrow> a \<notin> str_addrs cs \<Longrightarrow> mdc_rep (release a h) t cs"
  by (auto simp: mdc_rep_def heap_wf_def release_def split: option.splits)

lemma frame_temp:
  assumes "mdc_rep h t cs" "mdc_rep h2 t cs2" "frame t (new_block b h) cs h2 cs2"
  shows "strs h2 (brk h) = Some b" "brk h \<notin> str_addrs cs2" "free_block (Some (brk h)) h2 = Some (release (brk h) h2)"
    "mdc_rep (release (brk h) h2) t cs2" "frame t h cs (release (brk h) h2) cs2"
proof -
  have f: "strs h (brk h) = None" "brk h \<notin> str_addrs cs" using mdc_rep_fresh [OF assms(1)] by simp_all
  have o: "(strs h)(brk h \<mapsto> b) |` (- str_addrs cs) = strs h2 |` (- str_addrs cs2)" using assms(3) by (simp add: frame_def new_block_def)
  show live: "strs h2 (brk h) = Some b" "brk h \<notin> str_addrs cs2" using outside_eqD [OF o f(2), of b] by simp_all
  then show "free_block (Some (brk h)) h2 = Some (release (brk h) h2)" by (simp add: release_def)
  show "mdc_rep (release (brk h) h2) t cs2" by (rule mdc_rep_release [OF assms(2) live(2)])
  show "frame t h cs (release (brk h) h2) cs2"
    using assms(3) outside_temp [OF o f live(2)] by (cases h2) (auto simp: frame_def new_block_def release_def)
qed

lemma mdc_get_frame:
  assumes "lib_rep h t i cs" "c_string k"
  shows "\<exists>h1. mdc_rep h1 t cs \<and> frame t h cs h1 cs \<and> mdclog_mdc_get t (Some (cblock k)) h =
    Some (case map_of (pairs cs) k of None \<Rightarrow> (None, h1) | Some v \<Rightarrow> (Some (brk h1), new_block (cblock v) h1))"
proof -
  have rep: "mdc_rep h t cs" "env_ok t h" using assms(1) by (simp_all add: lib_rep_def)
  obtain h1 where s: "mdclog_internal_search_mdc t (cblock k) h = Some (map_option c_node (find (\<lambda>c. c_key c = k) cs), h1)"
    "mdc_rep h1 t cs" "frame t h cs h1 cs" using search_mdc_ok [OF rep c_stringD(1) [OF assms(2)]] by blast
  note init = lib_rep_init [OF assms(1), of None]
  have "mdclog_mdc_get t (Some (cblock k)) h =
    Some (case map_of (pairs cs) k of None \<Rightarrow> (None, h1) | Some v \<Rightarrow> (Some (brk h1), new_block (cblock v) h1))"
  proof (cases "find (\<lambda>c. c_key c = k) cs")
    case None
    then have "map_of (pairs cs) k = None" using find_key_map_of [of k cs] by simp
    then show ?thesis using s(1) None init by (simp add: mdclog_mdc_get_def)
  next
    case (Some c)
    note v = mdc_val_at [OF s(2) Some]
    have "map_of (pairs cs) k = Some (c_val c)" using find_key_map_of [of k cs] Some by simp
    moreover have "malloc_ok h1 (brk h1)" using env_ok_frame [OF rep(2) s(3)] by (simp add: env_ok_def)
    ultimately show ?thesis using s(1) Some init v by (simp add: mdclog_mdc_get_def new_block_def)
  qed
  with s(2,3) show ?thesis by blast
qed

lemma mdc_get_ok:
  assumes "lib_rep h t i cs" "c_string k"
  shows "\<exists>h' p. mdclog_mdc_get t (Some (cblock k)) h = Some (p, h') \<and> lib_rep h' t i cs \<and>
    mdc_heap.more h' = mdc_heap.more h \<and>
    (case map_of (pairs cs) k of
       None \<Rightarrow> p = None \<and> strs h' = strs h
     | Some v \<Rightarrow> (\<exists>a. p = Some a \<and> strs h a = None \<and> strs h' = (strs h)(a \<mapsto> cblock v)))"
proof -
  obtain h1 where g: "mdc_rep h1 t cs" "frame t h cs h1 cs" "mdclog_mdc_get t (Some (cblock k)) h =
      Some (case map_of (pairs cs) k of None \<Rightarrow> (None, h1) | Some v \<Rightarrow> (Some (brk h1), new_block (cblock v) h1))"
    using mdc_get_frame [OF assms] by blast
  have rep: "mdc_rep h t cs" using assms(1) by (simp add: lib_rep_def)
  have S: "strs h1 = strs h" "mdc_heap.more h1 = mdc_heap.more h" using frame_same [OF rep g(1,2)] g(2) by (simp_all add: frame_def)
  have lib: "lib_rep h1 t i cs" by (rule lib_rep_frame [OF assms(1) g(1,2)])
  have "lib_rep (new_block b h1) t i cs" for b by (rule lib_rep_new_block [OF lib]) (simp_all add: new_block_def)
  moreover have "mdc_heap.more (new_block b h1) = mdc_heap.more h" for b using S(2) by (cases h1) (simp add: new_block_def)
  ultimately show ?thesis using g(3) lib S mdc_rep_fresh [OF g(1)]
    by (cases "map_of (pairs cs) k") (auto simp: new_block_def)
qed

section \<open>Cleaning up\<close>

definition cleaned :: "'a mdclog_scheme \<Rightarrow> 'a mdclog_scheme" where
  "cleaned h = set_log_format_init_done 0 (set_init_done 0 (init_released h))"

lemma lib_clean_ok:
  assumes "lib_raw h t i cs" shows "mdclog_lib_clean h = Some (cleaned h)" "lib_raw (cleaned h) t None cs"
proof -
  note k = lib_raw_keyed [OF assms]
  have o: "ident_owned h i cs" using assms by (simp add: lib_raw_def)
  show "mdclog_lib_clean h = Some (cleaned h)"
  proof (cases "cfg_identity (configuration h)")
    case (Some b)
    then obtain s where "strs h b = Some (cblock s)" using o by (auto simp: ident_owned_def)
    then show ?thesis using Some
      by (simp add: mdclog_lib_clean_def cleaned_def init_released_def set_log_format_init_done_def set_init_done_def set_cfg_identity_def restrict_one)
  qed (simp add: mdclog_lib_clean_def cleaned_def init_released_def set_log_format_init_done_def set_init_done_def set_cfg_identity_def)
  have "mdc_rep (init_released (h\<lparr>key_created := True\<rparr>)) t cs" by (rule init_released_rep(1) [OF k(1-3)])
  then have "mdc_rep ((cleaned h)\<lparr>key_created := True\<rparr>) t cs"
    by (rule mdc_rep_cong) (simp_all add: cleaned_def init_released_def set_log_format_init_done_def set_init_done_def set_cfg_identity_def)
  then show "lib_raw (cleaned h) t None cs" using assms
    by (simp add: lib_raw_def env_ok_def ident_owned_def cleaned_def init_released_def set_log_format_init_done_def set_init_done_def set_cfg_identity_def)
qed

section \<open>Sample states\<close>

text \<open>A library that is initialised with the identity \<open>me\<close>, with one entry in the context of
  thread 1; \<open>write\<close> is interrupted once and then takes everything.\<close>

definition sample_lib :: mdclog where
  "sample_lib = \<lparr>strs = [2 \<mapsto> cblock ''k'', 3 \<mapsto> cblock ''v'', 4 \<mapsto> cblock ''me''], brk = 5, malloc_ok = \<lambda>a. True,
     garbage = \<lambda>a i. NUL, errno = 0,
     nodes = [1 \<mapsto> \<lparr>mdc_prev = None, mdc_next = None, mdc_key = Some 2, mdc_value = Some 3\<rparr>],
     lists = [0 \<mapsto> \<lparr>mdclist_head = Some 1\<rparr>], tls = [1 \<mapsto> 0],
     key_created = True, key_create_ec = 0, once_ec = 0, setspecific_ec = \<lambda>t. 0,
     current_level = MDCLOG_DEBUG, configuration = \<lparr>init_done = 1, log_format_init_done = 0, cfg_identity = Some 4\<rparr>,
     attrs = Map.empty, progname = cblock ''prog'', out = [],
     write_answers = \<lambda>n. if n = 0 then WFail EINTR else WAccept PIPE_BUF, write_calls = 0\<rparr>"

lemma sample_lib_rep: "lib_rep sample_lib 1 (Some ''me'') [sample_cell]"
proof -
  have "mdc_rep sample_lib 1 [sample_cell]"
    by (auto simp: mdc_rep_def heap_wf_def sample_lib_def sample_cell_def cells_ok_def cell_node_def)
  then show ?thesis by (simp add: lib_rep_def env_ok_def ident_owned_def sample_lib_def sample_cell_def)
qed

text \<open>The same library before its initialisation.\<close>

definition raw_lib :: mdclog where
  "raw_lib = set_init_done 0 sample_lib"

lemma raw_lib_raw: "lib_raw raw_lib 1 (Some ''me'') [sample_cell]" "init_done (configuration raw_lib) = 0"
proof -
  have "mdc_rep sample_lib 1 [sample_cell]" using sample_lib_rep by (simp add: lib_rep_def)
  then have "mdc_rep (raw_lib\<lparr>key_created := True\<rparr>) 1 [sample_cell]"
    by (rule mdc_rep_cong) (simp_all add: raw_lib_def set_init_done_def sample_lib_def)
  then show "lib_raw raw_lib 1 (Some ''me'') [sample_cell]"
    by (simp add: lib_raw_def env_ok_def ident_owned_def raw_lib_def set_init_done_def sample_lib_def sample_cell_def)
  show "init_done (configuration raw_lib) = 0" by (simp add: raw_lib_def set_init_done_def)
qed

section \<open>Properties\<close>

text \<open>C3: \<open>mdclog_write\<close> is silent above the current level. Otherwise it writes exactly one line, in one
  call of \<open>write\<close> that the kernel takes whole (calls that were interrupted before are repeated and
  leave no trace): a JSON object that reads back to the entry, and a newline, at most \<open>PIPE_BUF\<close>
  bytes together. The identity and the context are as before.\<close>

theorem mdclog_write_line:
  assumes "write_args h t i name cs kvs s buffer" "retry_policy retry"
    "length (entry_head (PIPE_BUF - 1) tv i severity (pairs cs)) + 20 < PIPE_BUF - 1"
    "\<forall>j < k. \<exists>e. write_answers h (write_calls h + j) = WFail e \<and> retry (- 1) e"
    "write_answers h (write_calls h + k) = WAccept n" "PIPE_BUF \<le> n"
  shows "if current_level h < severity then mdclog_write retry t severity (Formatted s) tv buffer h = Some h
    else \<exists>h' line. mdclog_write retry t severity (Formatted s) tv buffer h = Some h' \<and> lib_rep h' t i cs \<and>
      out h' = out h @ [line @ [NEWLINE]] \<and> length (line @ [NEWLINE]) \<le> PIPE_BUF \<and>
      read_entry line = Some (entry_members (PIPE_BUF - 1) tv i name severity kvs s)"
proof (cases "current_level h < severity")
  case False
  then obtain h' line where w: "mdclog_write retry t severity (Formatted s) tv buffer h = Some h'" "lib_rep h' t i cs"
    "out h' = out h @ [take n (line @ [NEWLINE])]" "length line < PIPE_BUF - 1"
    "read_entry line = Some (entry_members (PIPE_BUF - 1) tv i name severity kvs s)"
    using mdclog_write_ok [OF assms(1) _ assms(3,2,4,5)] by (auto simp: not_less)
  then have "take n (line @ [NEWLINE]) = line @ [NEWLINE]" using assms(6) by simp
  with w False show ?thesis by auto
qed (simp add: mdclog_write_def)

lemma sample_write_args: "write_args sample_lib 1 (Some ''me'') ''me'' [sample_cell] [(''k'', ''v'')] ''hello'' (replicate PIPE_BUF NUL)"
  using sample_lib_rep by (simp add: write_args_def ident_text_def sample_cell_def INT_MAX_def literal_simps)

theorem mdclog_write_line_witness:
  "\<exists>h' line. mdclog_write retry_glibc 1 MDCLOG_INFO (Formatted ''hello'') \<lparr>tv_sec = 1, tv_usec = 0\<rparr> (replicate PIPE_BUF NUL) sample_lib = Some h' \<and>
    out h' = [line @ [NEWLINE]] \<and> length (line @ [NEWLINE]) \<le> PIPE_BUF"
proof -
  let ?tv = "\<lparr>tv_sec = 1, tv_usec = 0\<rparr>"
  have h: "length (entry_head (PIPE_BUF - 1) ?tv (Some ''me'') MDCLOG_INFO (pairs [sample_cell])) + 20 < PIPE_BUF - 1"
    using sample_head_length [of "PIPE_BUF - 1" ?tv "Some ''me''" MDCLOG_INFO] by simp
  have "\<forall>j < 1. \<exists>e. write_answers sample_lib (write_calls sample_lib + j) = WFail e \<and> retry_glibc (- 1) e"
    "write_answers sample_lib (write_calls sample_lib + 1) = WAccept PIPE_BUF" "\<not> current_level sample_lib < MDCLOG_INFO" "out sample_lib = []"
    by (simp_all add: sample_lib_def retry_glibc_def)
  then show ?thesis
    using mdclog_write_line [OF sample_write_args retry_glibc.retry_policy_axioms h, of 1 PIPE_BUF] by auto
qed

lemma lib_raw_attrs:
  assumes "lib_raw h t i cs" "strs h' = (strs h)(a \<mapsto> b)" "brk h \<le> a" "a < brk h'" "brk h \<le> brk h'"
    "nodes h' = nodes h" "lists h' = lists h" "tls h' = tls h" "malloc_ok h' = malloc_ok h" "setspecific_ec h' = setspecific_ec h"
    "once_ec h' = once_ec h" "key_create_ec h' = key_create_ec h" "cfg_identity (configuration h') = cfg_identity (configuration h)"
  shows "lib_raw h' t i cs" "a \<notin> str_addrs cs" "cfg_identity (configuration h) \<noteq> Some a"
proof -
  have rep: "mdc_rep (h\<lparr>key_created := True\<rparr>) t cs" using assms(1) by (simp add: lib_raw_def)
  show f: "a \<notin> str_addrs cs" using mdc_rep_below(2) [OF rep, of a] assms(3) by auto
  have n: "strs h a = None" using mdc_repD(1) [OF rep] assms(3) by (simp add: heap_wf_def)
  then show c: "cfg_identity (configuration h) \<noteq> Some a" using assms(1) by (auto simp: lib_raw_def ident_owned_def)
  have "seg (nodes h') (strs h') None cs None" using mdc_repD(4) [OF rep] assms(2,6) f by simp
  moreover have "heap_wf h'" using mdc_repD(1) [OF rep] assms(2-7) by (auto simp: heap_wf_def)
  ultimately have "mdc_rep (h'\<lparr>key_created := True\<rparr>) t cs"
    using rep assms(7,8) by (auto simp: mdc_rep_def heap_wf_def split: option.splits)
  moreover have "ident_owned h' i cs" using assms(1,2,13) c by (auto simp: lib_raw_def ident_owned_def split: option.splits)
  ultimately show "lib_raw h' t i cs" using assms(1,9-12) by (simp add: lib_raw_def env_ok_def)
qed

text \<open>C15: the documented life cycle of the attributes: after \<open>mdclog_attr_init\<close>, \<open>mdclog_attr_set_ident\<close>
  with a valid identity and \<open>mdclog_init\<close>, the library is initialised with exactly that identity,
  which it owns from then on; \<open>mdclog_attr_destroy\<close> then releases the attributes and nothing else.
  The identity prints unchanged, as the validity of the entries asks for.\<close>

theorem init_with_identity:
  assumes "lib_raw h t i cs" "NUL \<notin> set s" "length s \<le> IDENTITY_MAX_LENGTH" "escape_str s = s"
  shows "\<exists>a h1 h2 h3 h4. mdclog_attr_init h = (0, Some a, h1) \<and>
    mdclog_attr_set_ident (Some a) (Some (cblock s)) h1 = Some (0, h2) \<and>
    mdclog_init (Some a) h2 = Some (0, h3) \<and> lib_rep h3 t (Some s) cs \<and> ident_text (Some s) = escape_str s \<and>
    mdclog_attr_destroy (Some a) h3 = Some h4 \<and> lib_rep h4 t (Some s) cs \<and> attrs h4 = (attrs h)(a := None) \<and> strs h4 = strs h3"
proof -
  let ?a = "brk h" and ?p = "Suc (brk h)"
  have ok: "malloc_ok h x" for x using assms(1) by (simp add: lib_raw_def env_ok_def)
  define h1 where "h1 = h\<lparr>brk := ?p, attrs := (attrs h)(?a \<mapsto> \<lparr>attr_identity = None\<rparr>)\<rparr>"
  define h2 where "h2 = h1\<lparr>brk := Suc ?p, strs := (strs h)(?p \<mapsto> cblock s), attrs := (attrs h1)(?a \<mapsto> \<lparr>attr_identity = Some ?p\<rparr>)\<rparr>"
  define h2' where "h2' = set_log_format_init_done 0 (set_init_done 0 h2)"
  have 1: "mdclog_attr_init h = (0, Some ?a, h1)" using ok by (simp add: mdclog_attr_init_def new_addr_def h1_def)
  have 2: "mdclog_attr_set_ident (Some ?a) (Some (cblock s)) h1 = Some (0, h2)"
    using attr_set_ident_ok [of h1 ?a "\<lparr>attr_identity = None\<rparr>" "cblock s" s] ok assms(2-4) by (simp add: h1_def h2_def)
  have f: "strs h2' = (strs h)(?p \<mapsto> cblock s)" "attrs h2' = (attrs h)(?a \<mapsto> \<lparr>attr_identity = Some ?p\<rparr>)" "init_done (configuration h2') = 0"
    "cfg_identity (configuration h2') = cfg_identity (configuration h)"
    by (simp_all add: h2'_def h2_def h1_def set_log_format_init_done_def set_init_done_def)
  have raw: "lib_raw h2' t i cs" "?p \<notin> str_addrs cs" "cfg_identity (configuration h) \<noteq> Some ?p"
    by (rule lib_raw_attrs [OF assms(1) f(1)]; simp add: h2'_def h2_def h1_def set_log_format_init_done_def set_init_done_def)+
  obtain h3 where 3: "init_library (Some ?a) h2' = Some h3" "lib_rep h3 t (Some s) cs"
    "attrs h3 = (attrs h2')(?a \<mapsto> \<lparr>attr_identity = None\<rparr>)"
    using init_library_attr [OF raw(1) f(3), of ?a ?p s] f assms(2) raw(2,3) by auto
  let ?h4 = "h3\<lparr>attrs := (attrs h3)(?a := None)\<rparr>"
  have 4: "mdclog_attr_destroy (Some ?a) h3 = Some ?h4" using 3(3) by (simp add: mdclog_attr_destroy_def)
  have "lib_rep ?h4 t (Some s) cs" by (rule lib_rep_cong [OF 3(2)]) simp_all
  then show ?thesis using 1 2 3 4 f(2) ident_text_valid [OF assms(3,4)]
    by (intro exI [of _ ?a] exI [of _ h1] exI [of _ h2] exI [of _ h3] exI [of _ ?h4]) (simp add: mdclog_init_def h2'_def)
qed

theorem init_with_identity_witness:
  "\<exists>a h1 h2 h3. mdclog_attr_init raw_lib = (0, Some a, h1) \<and> mdclog_attr_set_ident (Some a) (Some (cblock ''you'')) h1 = Some (0, h2) \<and>
    mdclog_init (Some a) h2 = Some (0, h3) \<and> lib_rep h3 1 (Some ''you'') [sample_cell]"
  using init_with_identity [OF raw_lib_raw(1), of "''you''"] by (auto simp: literal_simps)

text \<open>Without attributes the library takes the escaped program name as its identity, and releases
  the identity of an earlier initialisation: exactly one block of the heap is replaced. The
  context, the level and the output stay as they were.\<close>

lemma init_default_identity:
  assumes "lib_raw h t i cs" "init_done (configuration h) = 0" "cstr (progname h) = Some pn" "2 * length pn + 1 < SIZE_MOD" "length pn \<le> INT_MAX"
  shows "\<exists>h' a. init_library None h = Some h' \<and> lib_rep h' t (Some (escape_str pn)) cs \<and> same_lib h h' \<and> attrs h' = attrs h \<and>
    strs h' = (strs h |` (- set_option (cfg_identity (configuration h))))(a \<mapsto> cblock (escape_str pn))"
  using assms by (rule init_library_default)

lemma init_default_identity_witness:
  "\<exists>h'. init_library None raw_lib = Some h' \<and> lib_rep h' 1 (Some ''prog'') [sample_cell]"
proof -
  have "cstr (progname raw_lib) = Some ''prog''" by (simp add: raw_lib_def set_init_done_def sample_lib_def cstr_def)
  from init_default_identity [OF raw_lib_raw this] show ?thesis
    by (auto simp: SIZE_MOD_def INT_MAX_def literal_simps)
qed

text \<open>C20: \<open>mdclog_mdc_get\<close> after \<open>mdclog_mdc_add\<close> returns a fresh copy of the escaped value under that
  key, and what was stored before under another key; without a value it returns NULL. The copy
  belongs to the caller, the context is not changed.\<close>

theorem mdc_get_after_add:
  assumes "lib_rep h t i cs" "c_string k" "c_string v" "c_string k'" "escape_str k = k" "length k \<le> INT_MAX"
  shows "\<exists>h1 h2 p cs1. mdclog_mdc_add t (Some (cblock k)) (Some (cblock v)) h = Some (0, h1) \<and>
    mdclog_mdc_get t (Some (cblock k')) h1 = Some (p, h2) \<and> lib_rep h2 t i cs1 \<and> pairs cs1 = put_spec k (escape_str v) (pairs cs) \<and>
    (case (if k' = k then Some (escape_str v) else map_of (pairs cs) k') of
       None \<Rightarrow> p = None \<and> strs h2 = strs h1
     | Some w \<Rightarrow> (\<exists>a. p = Some a \<and> strs h1 a = None \<and> strs h2 = (strs h1)(a \<mapsto> cblock w)))"
proof -
  obtain h1 cs1 where a: "mdclog_mdc_add t (Some (cblock k)) (Some (cblock v)) h = Some (0, h1)" "lib_rep h1 t i cs1"
    "pairs cs1 = put_spec k (escape_str v) (pairs cs)" using mdc_add_ok [OF assms(1-3,5,6) c_stringD(1) [OF assms(3)]] by blast
  have m: "map_of (pairs cs1) k' = (if k' = k then Some (escape_str v) else map_of (pairs cs) k')"
    unfolding a(3) map_of_put_spec by simp
  show ?thesis using mdc_get_ok [OF a(2) assms(4)] a unfolding m by blast
qed

theorem mdc_get_after_add_witness:
  "\<exists>h1 h2 a. mdclog_mdc_add 1 (Some (cblock ''w'')) (Some (cblock [QUOTE])) sample_lib = Some (0, h1) \<and>
    mdclog_mdc_get 1 (Some (cblock ''w'')) h1 = Some (Some a, h2) \<and> strs h2 a = Some (cblock [BACKSLASH, QUOTE])"
proof -
  have c: "c_string ''w''" "c_string [QUOTE]" by (simp_all add: c_string_def SIZE_MOD_def)
  have e: "escape_str ''w'' = ''w''" "length ''w'' \<le> INT_MAX" "escape_str [QUOTE] = [BACKSLASH, QUOTE]"
    by (simp_all add: literal_simps INT_MAX_def)
  from mdc_get_after_add [OF sample_lib_rep c(1,2,1) e(1,2)]
  obtain h1 h2 a where "mdclog_mdc_add 1 (Some (cblock ''w'')) (Some (cblock [QUOTE])) sample_lib = Some (0, h1)"
    "mdclog_mdc_get 1 (Some (cblock ''w'')) h1 = Some (Some a, h2)" "strs h2 = (strs h1)(a \<mapsto> cblock [BACKSLASH, QUOTE])"
    unfolding e(3) if_P [OF refl] option.case by blast
  then show ?thesis by auto
qed

text \<open>\<open>mdclog_mdc_add\<close> rejects a missing key or value and a key with special characters with
  \<open>EINVAL\<close>, before anything else happens.\<close>

lemma mdc_add_invalid:
  assumes "key = None \<or> value = None \<or> (\<exists>b s. key = Some b \<and> cstr b = Some s \<and> length s \<le> INT_MAX \<and> escape_str s \<noteq> s)"
  shows "mdclog_mdc_add t key value h = Some (- 1, h\<lparr>errno := EINVAL\<rparr>)"
proof (cases "key = None \<or> value = None")
  case False
  then obtain b v s where "key = Some b" "value = Some v" "cstr b = Some s" "length s \<le> INT_MAX" "escape_str s \<noteq> s" using assms by auto
  then show ?thesis using contains_special_correct [of b s] by (auto simp: mdclog_mdc_add_def escape_str_id_iff)
qed (auto simp: mdclog_mdc_add_def split: option.splits)

lemma mdc_add_invalid_witness:
  "mdclog_mdc_add 1 (Some (cblock [QUOTE])) (Some (cblock ''v'')) sample_lib = Some (- 1, sample_lib\<lparr>errno := EINVAL\<rparr>)"
proof (rule mdc_add_invalid)
  show "Some (cblock [QUOTE]) = None \<or> Some (cblock ''v'') = None \<or>
      (\<exists>b s. Some (cblock [QUOTE]) = Some b \<and> cstr b = Some s \<and> length s \<le> INT_MAX \<and> escape_str s \<noteq> s)"
    by (auto simp: cstr_def INT_MAX_def literal_simps)
qed

text \<open>C35: \<open>mdclog_attr_set_ident\<close> accepts exactly the identities of at most \<open>IDENTITY_MAX_LENGTH\<close>
  characters that escaping leaves alone; all others give \<open>EINVAL\<close> and change nothing.\<close>

theorem attr_set_ident_checks:
  assumes "attrs h a = Some x" "cstr b = Some s" "length s \<le> INT_MAX" "malloc_ok h (brk h)"
  shows "if length s \<le> IDENTITY_MAX_LENGTH \<and> escape_str s = s
    then \<exists>h'. mdclog_attr_set_ident (Some a) (Some b) h = Some (0, h') \<and>
      (\<exists>p. attrs h' a = Some \<lparr>attr_identity = Some p\<rparr> \<and> strs h' p = Some (cblock s))
    else mdclog_attr_set_ident (Some a) (Some b) h = Some (- 1, h\<lparr>errno := EINVAL\<rparr>)"
  using attr_set_ident_ok [OF assms(1,2) _ _ assms(4)] bad_ident_eq [OF assms(2,3)] by (auto simp: mdclog_attr_set_ident_def)

theorem attr_set_ident_checks_witness:
  "mdclog_attr_set_ident (Some 9) (Some (cblock [BACKSLASH])) (sample_lib\<lparr>attrs := [9 \<mapsto> \<lparr>attr_identity = None\<rparr>]\<rparr>) =
     Some (- 1, sample_lib\<lparr>attrs := [9 \<mapsto> \<lparr>attr_identity = None\<rparr>], errno := EINVAL\<rparr>)"
proof -
  have "cstr (cblock [BACKSLASH]) = Some [BACKSLASH]" by (simp add: cstr_def)
  from attr_set_ident_checks [of "sample_lib\<lparr>attrs := [9 \<mapsto> \<lparr>attr_identity = None\<rparr>]\<rparr>" 9 "\<lparr>attr_identity = None\<rparr>", OF _ this]
  show ?thesis by (simp add: INT_MAX_def sample_lib_def literal_simps)
qed

text \<open>C36: setting the identity of the same attributes twice leaks the first copy: after
  \<open>mdclog_attr_destroy\<close> it is still allocated.\<close>

theorem attr_set_ident_twice_leaks:
  assumes "attrs h a = Some x" "malloc_ok h (brk h)" "malloc_ok h (Suc (brk h))"
    "NUL \<notin> set s" "length s \<le> IDENTITY_MAX_LENGTH" "escape_str s = s"
  shows "\<exists>h1 h2 h3. mdclog_attr_set_ident (Some a) (Some (cblock s)) h = Some (0, h1) \<and>
    mdclog_attr_set_ident (Some a) (Some (cblock s)) h1 = Some (0, h2) \<and> mdclog_attr_destroy (Some a) h2 = Some h3 \<and>
    attrs h3 = (attrs h)(a := None) \<and> strs h3 (brk h) = Some (cblock s)"
proof -
  have c: "cstr (cblock s) = Some s" using assms(4) by simp
  define h1 where "h1 = h\<lparr>brk := Suc (brk h), strs := (strs h)(brk h \<mapsto> cblock s), attrs := (attrs h)(a \<mapsto> \<lparr>attr_identity = Some (brk h)\<rparr>)\<rparr>"
  have 1: "mdclog_attr_set_ident (Some a) (Some (cblock s)) h = Some (0, h1)"
    unfolding h1_def by (rule attr_set_ident_ok [OF assms(1) c assms(5,6,2)])
  have "attrs h1 a = Some \<lparr>attr_identity = Some (brk h)\<rparr>" "malloc_ok h1 (brk h1)" using assms(3) by (simp_all add: h1_def)
  from attr_set_ident_ok [OF this(1) c assms(5,6) this(2)] 1 show ?thesis by (simp add: mdclog_attr_destroy_def h1_def)
qed

theorem attr_set_ident_twice_leaks_witness:
  "\<exists>h1 h2 h3. mdclog_attr_set_ident (Some 9) (Some (cblock ''me'')) (sample_lib\<lparr>attrs := [9 \<mapsto> \<lparr>attr_identity = None\<rparr>]\<rparr>) = Some (0, h1) \<and>
    mdclog_attr_set_ident (Some 9) (Some (cblock ''me'')) h1 = Some (0, h2) \<and> mdclog_attr_destroy (Some 9) h2 = Some h3 \<and>
    strs h3 5 = Some (cblock ''me'')"
  using attr_set_ident_twice_leaks [of "sample_lib\<lparr>attrs := [9 \<mapsto> \<lparr>attr_identity = None\<rparr>]\<rparr>" 9 "\<lparr>attr_identity = None\<rparr>" "''me''"]
  by (fastforce simp: sample_lib_def literal_simps)

text \<open>C34: \<open>mdclog_lib_clean\<close> releases the identity and nothing else, and the next call initialises the
  library again; the context of the thread is kept.\<close>

theorem lib_clean_reinit:
  assumes "lib_rep h t i cs" "once_ec h = 0" "key_create_ec h = 0" "cstr (progname h) = Some pn" "2 * length pn + 1 < SIZE_MOD" "length pn \<le> INT_MAX"
  shows "\<exists>h1 h2. mdclog_lib_clean h = Some h1 \<and> strs h1 = strs h |` (- set_option (cfg_identity (configuration h))) \<and>
    init_library None h1 = Some h2 \<and> lib_rep h2 t (Some (escape_str pn)) cs"
proof -
  have raw: "lib_raw h t i cs" by (rule lib_rep_raw [OF assms(1-3)])
  note c = lib_clean_ok [OF raw]
  have f: "strs (cleaned h) = strs h |` (- set_option (cfg_identity (configuration h)))" "cstr (progname (cleaned h)) = Some pn"
    "init_done (configuration (cleaned h)) = 0"
    using assms(4) by (simp_all add: cleaned_def init_released_def set_log_format_init_done_def set_init_done_def set_cfg_identity_def)
  from init_library_default [OF c(2) f(3,2) assms(5,6)] show ?thesis using c(1) f(1) by blast
qed

theorem lib_clean_reinit_witness:
  "\<exists>h1 h2. mdclog_lib_clean sample_lib = Some h1 \<and> strs h1 4 = None \<and> init_library None h1 = Some h2 \<and> lib_rep h2 1 (Some ''prog'') [sample_cell]"
proof -
  have "once_ec sample_lib = 0" "key_create_ec sample_lib = 0" "cstr (progname sample_lib) = Some ''prog''"
    by (simp_all add: sample_lib_def cstr_def)
  from lib_clean_reinit [OF sample_lib_rep this] show ?thesis
    by (auto simp: SIZE_MOD_def INT_MAX_def literal_simps sample_lib_def)
qed

text \<open>C21: the loop around \<open>write\<close> returns exactly when the kernel does not answer with retryable errors
  for ever: with the macro of \<open>system.h\<close> as soon as an answer is neither \<open>EINTR\<close> nor \<open>EAGAIN\<close>, with
  the one of glibc as soon as one is not \<open>EINTR\<close>.\<close>

theorem retry_terminates_iff:
  "(temp_failure_retry retry_system data h \<noteq> None \<longleftrightarrow>
     (\<exists>k. write_answers h (write_calls h + k) \<notin> {WFail EINTR, WFail EAGAIN})) \<and>
   (temp_failure_retry retry_glibc data h \<noteq> None \<longleftrightarrow> (\<exists>k. write_answers h (write_calls h + k) \<noteq> WFail EINTR))"
proof -
  have "retries retry_system a \<longleftrightarrow> a \<in> {WFail EINTR, WFail EAGAIN}" "retries retry_glibc a \<longleftrightarrow> a = WFail EINTR" for a
    by (cases a; auto simp: retry_system_def retry_glibc_def)+
  then show ?thesis
    using retry_system.retry_returns [of h _ data] retry_system.retry_only_if [of data h]
      retry_glibc.retry_returns [of h _ data] retry_glibc.retry_only_if [of data h]
    unfolding not_None_eq by metis
qed

end
