(* ===== verification/Init_Race.thy ===== *)
theory Init_Race
  imports Mdclog_Correct
begin

text \<open>
  The initialisation of the library by several threads at once. \<open>init_library\<close> is taken apart at the
  points where another thread can come in between: the test of \<open>init_done\<close>, which is made without
  the lock, the creation of the key under \<open>pthread_once\<close>, and the part under the lock of
  \<open>config_mutex\<close>. That part is one step: the lock keeps the others out, and the only store it shares
  with code outside the lock, that of \<open>init_done\<close>, is its last one. A thread that has got through may
  go on to write an entry: \<open>mdclog_write\<close> takes the lock for reading, loads the identity and formats
  the entry with it; the initialisation waits for such threads. What the formatting does to the
  memory of its own thread is left out here (\<open>Mdclog_Correct\<close> has it).
\<close>

section \<open>Steps\<close>

text \<open>Where a thread is; the argument is the one of \<open>init_library\<close>.\<close>

datatype pc = Outside | Check "addr option" | Once "addr option" | Lock "addr option" | Returned | Formatting "addr option"

text \<open>A thread outside can call a function of the API, which begins with \<open>init_library(NULL)\<close>, or
  \<open>mdclog_init\<close>, which first resets the two flags. A thread whose identity is gone when the entry is
  formatted has no step.\<close>

inductive race_step :: "(thread \<Rightarrow> pc) \<times> 'a mdclog_scheme \<Rightarrow> (thread \<Rightarrow> pc) \<times> 'a mdclog_scheme \<Rightarrow> bool" where
  enter_api: "pcs u \<in> {Outside, Returned} \<Longrightarrow> race_step (pcs, h) (pcs(u := Check None), h)"
| enter_init: "pcs u \<in> {Outside, Returned} \<Longrightarrow> (\<forall>a. attr = Some a \<longrightarrow> attrs h a \<noteq> None) \<Longrightarrow>
    race_step (pcs, h) (pcs(u := Check attr), set_log_format_init_done 0 (set_init_done 0 h))"
| check_done: "pcs u = Check attr \<Longrightarrow> init_done (configuration h) \<noteq> 0 \<Longrightarrow> race_step (pcs, h) (pcs(u := Returned), h)"
| check_todo: "pcs u = Check attr \<Longrightarrow> init_done (configuration h) = 0 \<Longrightarrow> race_step (pcs, h) (pcs(u := Once attr), h)"
| once: "pcs u = Once attr \<Longrightarrow> mdclog_internal_init_mdc h = Some (ec, h') \<Longrightarrow> race_step (pcs, h) (pcs(u := Lock attr), h')"
| body: "pcs u = Lock attr \<Longrightarrow> (\<forall>v p. pcs v \<noteq> Formatting p) \<Longrightarrow> init_locked attr h = Some h' \<Longrightarrow> race_step (pcs, h) (pcs(u := Returned), h')"
| read_lock: "pcs u = Returned \<Longrightarrow> race_step (pcs, h) (pcs(u := Formatting (cfg_identity (configuration h))), h)"
| read_unlock: "pcs u = Formatting p \<Longrightarrow> (\<forall>a. p = Some a \<longrightarrow> strs h a \<noteq> None) \<Longrightarrow> race_step (pcs, h) (pcs(u := Returned), h)"

inductive_cases race_stepE: "race_step (pcs, h) (pcs', h')"

text \<open>The steps of a single thread make up the calls of the sequential model.\<close>

lemma init_library_steps:
  assumes "pcs u = Check attr" "init_library attr h = Some h'" "\<forall>v p. pcs v \<noteq> Formatting p"
  shows "race_step\<^sup>*\<^sup>* (pcs, h) (pcs(u := Returned), h')"
proof (cases "init_done (configuration h) = 0")
  case False
  then show ?thesis using assms race_step.check_done [of pcs u attr h] by (auto simp: init_library_def)
next
  case True
  then obtain ec h1 where h1: "mdclog_internal_init_mdc h = Some (ec, h1)" "init_locked attr h1 = Some h'"
    using assms(2) by (auto simp: init_library_def Option.bind_eq_Some_conv)
  have "race_step (pcs, h) (pcs(u := Once attr), h)" using race_step.check_todo [of pcs u attr h] assms(1) True by simp
  moreover have "race_step (pcs(u := Once attr), h) (pcs(u := Lock attr), h1)"
    using race_step.once [of "pcs(u := Once attr)" u attr h ec h1] h1(1) by simp
  moreover have "race_step (pcs(u := Lock attr), h1) (pcs(u := Returned), h')"
    using race_step.body [of "pcs(u := Lock attr)" u attr h1 h'] h1(2) assms(3) by simp
  ultimately show ?thesis by (meson converse_rtranclp_into_rtranclp rtranclp.rtrancl_refl)
qed

section \<open>The invariant\<close>

text \<open>The attributes own their identities: each is a string of the set \<open>S\<close> in a live block that belongs
  to no other attributes, to no context and not to the library.\<close>

definition attrs_wf :: "'a mdclog_scheme \<Rightarrow> cell list \<Rightarrow> string set \<Rightarrow> bool" where
  "attrs_wf h cs S \<longleftrightarrow>
     (\<forall>a p. attrs h a = Some \<lparr>attr_identity = Some p\<rparr> \<longrightarrow>
        (\<exists>s\<in>S. NUL \<notin> set s \<and> strs h p = Some (cblock s)) \<and> p \<notin> str_addrs cs \<and> cfg_identity (configuration h) \<noteq> Some p) \<and>
     (\<forall>a b p. attrs h a = Some \<lparr>attr_identity = Some p\<rparr> \<longrightarrow> attrs h b = Some \<lparr>attr_identity = Some p\<rparr> \<longrightarrow> a = b)"

fun pc_attr :: "pc \<Rightarrow> addr option" where
  "pc_attr (Check attr) = attr"
| "pc_attr (Once attr) = attr"
| "pc_attr (Lock attr) = attr"
| "pc_attr _ = None"

definition good_name :: "'a mdclog_scheme \<Rightarrow> string set \<Rightarrow> bool" where
  "good_name h S \<longleftrightarrow> (\<exists>pn. cstr (progname h) = Some pn \<and> 2 * length pn + 1 < SIZE_MOD \<and> length pn \<le> INT_MAX \<and> escape_str pn \<in> S)"

text \<open>The heap as every thread may rely on it.\<close>

definition race_heap :: "thread \<Rightarrow> cell list \<Rightarrow> string set \<Rightarrow> 'a mdclog_scheme \<Rightarrow> bool" where
  "race_heap t cs S h \<longleftrightarrow> (\<exists>i. lib_raw h t i cs \<and> set_option i \<subseteq> S) \<and> attrs_wf h cs S \<and> good_name h S \<and>
     (init_done (configuration h) \<noteq> 0 \<longrightarrow> key_created h \<and> cfg_identity (configuration h) \<noteq> None)"

definition race_inv :: "thread \<Rightarrow> cell list \<Rightarrow> string set \<Rightarrow> (thread \<Rightarrow> pc) \<Rightarrow> 'a mdclog_scheme \<Rightarrow> bool" where
  "race_inv t cs S pcs h \<longleftrightarrow> race_heap t cs S h \<and>
     (\<forall>u a. pc_attr (pcs u) = Some a \<longrightarrow> attrs h a \<noteq> None) \<and>
     (\<forall>u attr. pcs u = Lock attr \<longrightarrow> key_created h) \<and>
     (\<forall>u. pcs u = Returned \<longrightarrow> key_created h \<and> cfg_identity (configuration h) \<noteq> None) \<and>
     (\<forall>u p. pcs u = Formatting p \<longrightarrow> key_created h \<and> p \<noteq> None \<and> p = cfg_identity (configuration h))"

text \<open>What a step does to the heap: it keeps \<open>race_heap\<close>, and what the threads have seen stays true.\<close>

definition heap_grows :: "'a mdclog_scheme \<Rightarrow> 'a mdclog_scheme \<Rightarrow> bool" where
  "heap_grows h h' \<longleftrightarrow> (key_created h \<longrightarrow> key_created h') \<and>
     (cfg_identity (configuration h) \<noteq> None \<longrightarrow> cfg_identity (configuration h') \<noteq> None) \<and> (\<forall>a. attrs h a \<noteq> None \<longrightarrow> attrs h' a \<noteq> None)"

lemma race_inv_step:
  assumes "race_inv t cs S pcs h" "race_heap t cs S h'" "heap_grows h h'"
    "\<forall>a. pc_attr c = Some a \<longrightarrow> attrs h' a \<noteq> None" "\<forall>attr. c = Lock attr \<longrightarrow> key_created h'"
    "c = Returned \<longrightarrow> key_created h' \<and> cfg_identity (configuration h') \<noteq> None"
    "cfg_identity (configuration h') = cfg_identity (configuration h) \<or> (\<forall>v p. pcs v \<noteq> Formatting p)"
    "\<forall>p. c = Formatting p \<longrightarrow> key_created h' \<and> p \<noteq> None \<and> p = cfg_identity (configuration h')"
  shows "race_inv t cs S (pcs(u := c)) h'"
  using assms unfolding race_inv_def heap_grows_def by (auto simp del: not_None_eq)

lemma heap_grows_refl [simp]: "heap_grows h h"
  by (simp add: heap_grows_def)

lemma lib_raw_cong:
  assumes "lib_raw h t i cs" "strs h' = strs h" "nodes h' = nodes h" "lists h' = lists h" "tls h' = tls h" "brk h' = brk h"
    "malloc_ok h' = malloc_ok h" "setspecific_ec h' = setspecific_ec h" "once_ec h' = once_ec h" "key_create_ec h' = key_create_ec h"
    "cfg_identity (configuration h') = cfg_identity (configuration h)"
  shows "lib_raw h' t i cs"
  using assms mdc_rep_cong [of "h\<lparr>key_created := True\<rparr>" t cs "h'\<lparr>key_created := True\<rparr>"]
  by (auto simp: lib_raw_def env_ok_def ident_owned_def split: option.splits)

lemma race_heap_reset:
  assumes "race_heap t cs S h" shows "race_heap t cs S (set_log_format_init_done 0 (set_init_done 0 h))" (is "race_heap t cs S ?h")
proof -
  have "lib_raw ?h t i cs" if "lib_raw h t i cs" for i
    by (rule lib_raw_cong [OF that]) (simp_all add: set_log_format_init_done_def set_init_done_def)
  then show ?thesis using assms unfolding race_heap_def attrs_wf_def good_name_def
    by (auto simp: set_log_format_init_done_def set_init_done_def)
qed

lemma race_heap_once:
  assumes "race_heap t cs S h" "mdclog_internal_init_mdc h = Some (ec, h')"
  shows "race_heap t cs S h'" "heap_grows h h'" "key_created h'" "cfg_identity (configuration h') = cfg_identity (configuration h)"
proof -
  obtain i where i: "lib_raw h t i cs" using assms(1) by (auto simp: race_heap_def)
  have h': "h' = h\<lparr>key_created := True\<rparr>" using lib_raw_keyed(4) [OF i] assms(2) by simp
  have "lib_raw h' t i cs" if "lib_raw h t i cs" for i by (rule lib_raw_cong [OF that]) (simp_all add: h')
  then show "race_heap t cs S h'" using assms(1) unfolding race_heap_def attrs_wf_def good_name_def by (auto simp: h')
  show "heap_grows h h'" "key_created h'" "cfg_identity (configuration h') = cfg_identity (configuration h)" by (simp_all add: h' heap_grows_def)
qed

text \<open>The part under the lock never faults, and it leaves an identity of \<open>S\<close>.\<close>

lemma attrs_wf_default:
  assumes "attrs_wf h cs S" "attrs h' = attrs h" "cfg_identity (configuration h') = Some b" "strs h b = None"
    "strs h' = (strs h |` (- set_option (cfg_identity (configuration h))))(b \<mapsto> x)"
  shows "attrs_wf h' cs S"
  using assms unfolding attrs_wf_def by (fastforce simp: restrict_map_def)

lemma attrs_wf_taken:
  assumes "attrs_wf h cs S" "attrs h a = Some \<lparr>attr_identity = Some p\<rparr>" "attrs h' = (attrs h)(a \<mapsto> \<lparr>attr_identity = None\<rparr>)"
    "cfg_identity (configuration h') = Some p" "strs h' = strs h |` (- set_option (cfg_identity (configuration h)))"
  shows "attrs_wf h' cs S"
  using assms unfolding attrs_wf_def by (fastforce simp: restrict_map_def split: if_splits)

lemma race_heap_body:
  assumes "race_heap t cs S h" "key_created h" "\<forall>a. attr = Some a \<longrightarrow> attrs h a \<noteq> None"
  shows "\<exists>h'. init_locked attr h = Some h' \<and> race_heap t cs S h' \<and> heap_grows h h' \<and> key_created h' \<and> cfg_identity (configuration h') \<noteq> None"
proof -
  obtain i pn where raw: "lib_raw h t i cs" "attrs_wf h cs S" and pn: "cstr (progname h) = Some pn" "2 * length pn + 1 < SIZE_MOD" "length pn \<le> INT_MAX" "escape_str pn \<in> S"
    using assms(1) by (auto simp: race_heap_def good_name_def)
  have rep: "mdc_rep h t cs" "env_ok t h" "ident_owned h i cs"
    using lib_raw_keyed(1-3) [OF raw(1)] unfolding key_created_idem [OF assms(2)] by simp_all
  have finish: ?thesis if "init_locked attr h = Some h'" "lib_rep h' t (Some s) cs" "same_lib h h'" "s \<in> S" "attrs_wf h' cs S"
    "\<forall>a. attrs h a \<noteq> None \<longrightarrow> attrs h' a \<noteq> None" "cfg_identity (configuration h') = Some b" for h' s b
  proof -
    have k: "key_created h'" using that(2) mdc_repD(2) by (auto simp: lib_rep_def)
    have "lib_raw h' t (Some s) cs"
      using that(3) raw(1) by (intro lib_rep_raw [OF that(2)]) (auto simp: lib_raw_def same_lib_def)
    moreover have "good_name h' S" using pn that(3) by (auto simp: good_name_def same_lib_def)
    ultimately show ?thesis using that k by (intro exI [of _ h']) (auto simp: race_heap_def heap_grows_def)
  qed
  consider (default) "attr_ident attr h = Some None" | (taken) a p where "attr = Some a" "attrs h a = Some \<lparr>attr_identity = Some p\<rparr>"
    using assms(3) by (cases attr; force simp: attr_ident_def intro: mdclog_attr.equality)
  then show ?thesis
  proof cases
    case default
    obtain h' b where d: "init_locked attr h = Some h'" "lib_rep h' t (Some (escape_str pn)) cs" "same_lib h h'" "attrs h' = attrs h"
      "cfg_identity (configuration h') = Some b" "strs h b = None"
      "strs h' = (strs h |` (- set_option (cfg_identity (configuration h))))(b \<mapsto> cblock (escape_str pn))"
      using init_locked_default [OF rep pn(1-3) default] by blast
    show ?thesis by (rule finish [OF d(1-3) pn(4) attrs_wf_default [OF raw(2) d(4-7)] _ d(5)]) (simp add: d(4))
  next
    case taken
    then obtain s where s: "s \<in> S" "NUL \<notin> set s" "strs h p = Some (cblock s)" "p \<notin> str_addrs cs" "cfg_identity (configuration h) \<noteq> Some p"
      using raw(2) unfolding attrs_wf_def by blast
    obtain h' where d: "init_locked (Some a) h = Some h'" "lib_rep h' t (Some s) cs" "same_lib h h'"
      "attrs h' = (attrs h)(a \<mapsto> \<lparr>attr_identity = None\<rparr>)" "cfg_identity (configuration h') = Some p"
      "strs h' = strs h |` (- set_option (cfg_identity (configuration h)))"
      using init_locked_attr [OF rep taken(2) s(3,2,4,5)] by blast
    show ?thesis by (rule finish [OF d(1) [folded taken(1)] d(2,3) s(1) attrs_wf_taken [OF raw(2) taken(2) d(4-6)] _ d(5)]) (simp add: d(4))
  qed
qed

lemma race_step_inv:
  assumes "race_step (pcs, h) (pcs', h')" "race_inv t cs S pcs h" shows "race_inv t cs S pcs' h'"
proof -
  have heap: "race_heap t cs S h" and live: "\<And>u a. pc_attr (pcs u) = Some a \<Longrightarrow> attrs h a \<noteq> None" and key: "\<And>u attr. pcs u = Lock attr \<Longrightarrow> key_created h"
    using assms(2) by (auto simp: race_inv_def)
  note step = race_inv_step [OF assms(2)]
  from assms(1) show ?thesis
  proof (rule race_stepE)
    fix u assume "pcs' = pcs(u := Check None)" "h' = h"
    then show ?thesis using step [OF heap, of "Check None"] by simp
  next
    fix u attr assume "\<forall>a. attr = Some a \<longrightarrow> (\<exists>x. attrs h a = Some x)" "pcs' = pcs(u := Check attr)" "h' = set_log_format_init_done 0 (set_init_done 0 h)"
    then show ?thesis using step [OF race_heap_reset [OF heap], of "Check attr"]
      by (simp add: heap_grows_def set_log_format_init_done_def set_init_done_def)
  next
    fix u attr assume "pcs' = pcs(u := Returned)" "pcs u = Check attr" "init_done (configuration h) \<noteq> 0" "h' = h"
    then show ?thesis using step [OF heap, of Returned] heap by (simp add: race_heap_def)
  next
    fix u attr assume "pcs' = pcs(u := Once attr)" "pcs u = Check attr" "h' = h"
    then show ?thesis using step [OF heap, of "Once attr"] live [of u] by simp
  next
    fix u attr ec assume s: "pcs' = pcs(u := Lock attr)" "pcs u = Once attr" "mdclog_internal_init_mdc h = Some (ec, h')"
    note once = race_heap_once [OF heap s(3)]
    then show ?thesis using step [OF once(1,2), of "Lock attr"] live [of u] s by (auto simp: heap_grows_def)
  next
    fix u attr assume s: "pcs' = pcs(u := Returned)" "pcs u = Lock attr" "\<forall>v p. pcs v \<noteq> Formatting p" "init_locked attr h = Some h'"
    have "\<forall>a. attr = Some a \<longrightarrow> attrs h a \<noteq> None" using live [of u] s(2) by simp
    from race_heap_body [OF heap key [OF s(2)] this] s show ?thesis using step [of h' Returned] by auto
  next
    fix u assume s: "pcs' = pcs(u := Formatting (cfg_identity (configuration h)))" "h' = h" "pcs u = Returned"
    then show ?thesis using step [OF heap, of "Formatting (cfg_identity (configuration h))"] assms(2) unfolding race_inv_def by auto
  next
    fix u p assume s: "pcs' = pcs(u := Returned)" "h' = h" "pcs u = Formatting p"
    then show ?thesis using step [OF heap, of Returned] assms(2) unfolding race_inv_def by auto
  qed
qed

lemma race_inv_run: "race_step\<^sup>*\<^sup>* (pcs, h) (pcs', h') \<Longrightarrow> race_inv t cs S pcs h \<Longrightarrow> race_inv t cs S pcs' h'"
  by (induction rule: rtranclp_induct2) (auto intro: race_step_inv)

lemma race_identity:
  assumes "race_heap t cs S h" "cfg_identity (configuration h) \<noteq> None"
  shows "\<exists>a s. s \<in> S \<and> cfg_identity (configuration h) = Some a \<and> strs h a = Some (cblock s) \<and> NUL \<notin> set s"
  using assms by (auto simp: race_heap_def lib_raw_def ident_owned_def)

lemma formatting_identity:
  assumes "race_inv t cs S pcs h" "pcs u = Formatting p"
  shows "\<exists>a s. s \<in> S \<and> p = Some a \<and> strs h a = Some (cblock s) \<and> NUL \<notin> set s" "\<exists>h'. race_step (pcs, h) (pcs(u := Returned), h')"
proof -
  have i: "race_heap t cs S h" "p = cfg_identity (configuration h)" "p \<noteq> None" using assms unfolding race_inv_def by blast+
  then show live: "\<exists>a s. s \<in> S \<and> p = Some a \<and> strs h a = Some (cblock s) \<and> NUL \<notin> set s" using race_identity [OF i(1)] by simp
  then have "\<forall>a. p = Some a \<longrightarrow> strs h a \<noteq> None" by auto
  from race_step.read_unlock [of pcs u p h, OF assms(2) this] show "\<exists>h'. race_step (pcs, h) (pcs(u := Returned), h')" by blast
qed

text \<open>A thread can always go on, unless it waits for others to finish their entries.\<close>

lemma race_progress:
  assumes "race_inv t cs S pcs h" "pcs u \<notin> {Outside, Returned}" "\<not> ((\<exists>attr. pcs u = Lock attr) \<and> (\<exists>v p. pcs v = Formatting p))"
  shows "\<exists>c h'. race_step (pcs, h) (pcs(u := c), h')"
proof (cases "pcs u")
  case (Check attr)
  then show ?thesis using race_step.check_done [of pcs u attr h] race_step.check_todo [of pcs u attr h] by blast
next
  case (Once attr)
  obtain i where "lib_raw h t i cs" using assms(1) by (auto simp: race_inv_def race_heap_def)
  from race_step.once [of pcs u attr h, OF Once lib_raw_keyed(4) [OF this]] show ?thesis by blast
next
  case (Lock attr)
  have "race_heap t cs S h" "key_created h" using assms(1) Lock by (auto simp: race_inv_def)
  moreover have "\<forall>a. attr = Some a \<longrightarrow> attrs h a \<noteq> None"
  proof (intro allI impI)
    fix a assume "attr = Some a"
    then have "pc_attr (pcs u) = Some a" using Lock by simp
    then show "attrs h a \<noteq> None" using assms(1) unfolding race_inv_def by blast
  qed
  ultimately have "\<exists>h'. init_locked attr h = Some h'" using race_heap_body by blast
  moreover have "\<forall>v p. pcs v \<noteq> Formatting p" using Lock assms(3) by blast
  ultimately show ?thesis using race_step.body [of pcs u attr h, OF Lock] by blast
next
  case (Formatting p)
  then show ?thesis using formatting_identity(2) [OF assms(1)] by blast
qed (use assms(2) in auto)

section \<open>Properties\<close>

text \<open>A library that waits for its initialisation, with attributes that carry an identity.\<close>

definition race_lib :: mdclog where
  "race_lib = raw_lib\<lparr>strs := (strs raw_lib)(5 \<mapsto> cblock ''you''), brk := 6, attrs := [9 \<mapsto> \<lparr>attr_identity = Some 5\<rparr>]\<rparr>"

lemma race_lib_raw: "lib_raw race_lib 1 (Some ''me'') [sample_cell]"
proof -
  have b: "brk raw_lib = 5" by (simp add: raw_lib_def set_init_done_def sample_lib_def)
  show ?thesis by (rule lib_raw_attrs(1) [OF raw_lib_raw(1), of _ 5 "cblock ''you''"]) (simp_all add: race_lib_def b)
qed

lemma race_lib_simps: "cstr (progname race_lib) = Some ''prog''" "init_done (configuration race_lib) = 0"
  "attrs race_lib = [9 \<mapsto> \<lparr>attr_identity = Some 5\<rparr>]" "strs race_lib 5 = Some (cblock ''you'')" "cfg_identity (configuration race_lib) = Some 4"
  "escape_str ''prog'' = ''prog''"
  by (simp_all add: race_lib_def raw_lib_def set_init_done_def sample_lib_def cstr_def literal_simps)

lemma race_lib_heap: "race_heap 1 [sample_cell] {''me'', ''you'', ''prog''} race_lib"
proof -
  have "attrs_wf race_lib [sample_cell] {''me'', ''you'', ''prog''}"
    unfolding attrs_wf_def by (simp add: race_lib_simps sample_cell_def split: if_splits)
  moreover have "good_name race_lib {''me'', ''you'', ''prog''}"
    unfolding good_name_def by (intro exI [of _ "''prog''"]) (simp only: race_lib_simps SIZE_MOD_def INT_MAX_def, simp)
  ultimately show ?thesis using race_lib_raw race_lib_simps(2) unfolding race_heap_def by auto
qed

text \<open>C16: any number of threads that initialise the library at once, each with or without attributes.
  In every state they can reach the identity of the library, if there is one, is a live string of its
  own that a caller has given or the escaped program name; a thread that has got through the
  initialisation finds the key created and an identity; and no thread is stuck: it can go on, unless
  it waits for the lock while others format entries, and those can go on. No step of the
  initialisation faults, so nothing is freed twice or used after it was freed.\<close>

theorem init_race_invariant:
  assumes "race_step\<^sup>*\<^sup>* ((\<lambda>u. Outside), h0) (pcs, h)" "race_heap t cs S h0"
  shows "(\<exists>i. lib_raw h t i cs \<and> set_option i \<subseteq> S) \<and>
    (\<forall>u. pcs u = Returned \<longrightarrow> key_created h \<and> (\<exists>a s. s \<in> S \<and> cfg_identity (configuration h) = Some a \<and> strs h a = Some (cblock s))) \<and>
    (\<forall>u. pcs u \<notin> {Outside, Returned} \<longrightarrow> (\<exists>c h'. race_step (pcs, h) (pcs(u := c), h')) \<or>
      (\<exists>attr. pcs u = Lock attr) \<and> (\<exists>v p h'. pcs v = Formatting p \<and> race_step (pcs, h) (pcs(v := Returned), h')))"
proof -
  have "race_inv t cs S (\<lambda>u. Outside) h0" using assms(2) by (simp add: race_inv_def)
  from race_inv_run [OF assms(1) this] have inv: "race_inv t cs S pcs h" .
  then obtain i where i: "lib_raw h t i cs" "set_option i \<subseteq> S" by (auto simp: race_inv_def race_heap_def)
  have "\<exists>a s. s \<in> S \<and> cfg_identity (configuration h) = Some a \<and> strs h a = Some (cblock s)" if "cfg_identity (configuration h) \<noteq> None"
  proof -
    have "race_heap t cs S h" using inv by (simp add: race_inv_def)
    from race_identity [OF this that] show ?thesis by blast
  qed
  then have "\<forall>u. pcs u = Returned \<longrightarrow> key_created h \<and> (\<exists>a s. s \<in> S \<and> cfg_identity (configuration h) = Some a \<and> strs h a = Some (cblock s))"
    using inv unfolding race_inv_def by blast
  moreover have "(\<exists>c h'. race_step (pcs, h) (pcs(u := c), h')) \<or>
      (\<exists>attr. pcs u = Lock attr) \<and> (\<exists>v p h'. pcs v = Formatting p \<and> race_step (pcs, h) (pcs(v := Returned), h'))" if "pcs u \<notin> {Outside, Returned}" for u
    using race_progress [OF inv that] formatting_identity(2) [OF inv] by blast
  ultimately show ?thesis using i by blast
qed

theorem init_race_invariant_witness:
  "\<exists>i. lib_raw race_lib 1 i [sample_cell] \<and> set_option i \<subseteq> {''me'', ''you'', ''prog''} \<and>
    (\<exists>c h'. race_step ((\<lambda>u. Outside)(7 := Check None), race_lib) ((\<lambda>u. Outside)(7 := c), h'))"
proof -
  have "race_step ((\<lambda>u. Outside), race_lib) ((\<lambda>u. Outside)(7 := Check None), race_lib)"
    using race_step.enter_api [of "\<lambda>u. Outside" 7 race_lib] by simp
  from init_race_invariant [OF r_into_rtranclp [of race_step, OF this] race_lib_heap] show ?thesis by (fastforce dest: spec [of _ 7])
qed

text \<open>C9: an entry is never formatted with an identity that has been freed. However many threads
  initialise the library again, with whatever attributes, while others write: the identity that
  \<open>mdclog_write\<close> has loaded under the lock stays a live string, which a caller has given or which is
  the escaped program name, until the entry is finished.\<close>

theorem write_race_safe:
  assumes "race_step\<^sup>*\<^sup>* ((\<lambda>u. Outside), h0) (pcs, h)" "race_heap t cs S h0" "pcs u = Formatting p"
  shows "\<exists>a s. s \<in> S \<and> p = Some a \<and> strs h a = Some (cblock s) \<and> NUL \<notin> set s"
proof -
  have "race_inv t cs S (\<lambda>u. Outside) h0" using assms(2) by (simp add: race_inv_def)
  from formatting_identity(1) [OF race_inv_run [OF assms(1) this] assms(3)] show ?thesis .
qed

theorem write_race_safe_witness:
  "\<exists>pcs h a s. race_step\<^sup>*\<^sup>* ((\<lambda>u. Outside), race_lib) (pcs, h) \<and> pcs 7 = Formatting (Some a) \<and>
    s \<in> {''me'', ''you'', ''prog''} \<and> strs h a = Some (cblock s)"
proof -
  let ?out = "\<lambda>u. Outside"
  obtain h1 where h1: "init_library None race_lib = Some h1"
    using init_library_unnamed [OF race_lib_raw race_lib_simps(2,1), of None] by (auto simp: SIZE_MOD_def INT_MAX_def attr_ident_def)
  have s1: "race_step (?out, race_lib) (?out(7 := Check None), race_lib)" using race_step.enter_api [of ?out 7 race_lib] by simp
  have s2: "race_step\<^sup>*\<^sup>* (?out(7 := Check None), race_lib) (?out(7 := Returned), h1)"
    using init_library_steps [of "?out(7 := Check None)" 7 None race_lib h1] h1 by simp
  have s3: "race_step (?out(7 := Returned), h1) (?out(7 := Formatting (cfg_identity (configuration h1))), h1)"
    using race_step.read_lock [of "?out(7 := Returned)" 7 h1] by simp
  from converse_rtranclp_into_rtranclp [OF s1 rtranclp.rtrancl_into_rtrancl [OF s2 s3]]
  have run: "race_step\<^sup>*\<^sup>* (?out, race_lib) (?out(7 := Formatting (cfg_identity (configuration h1))), h1)" .
  from write_race_safe [OF run race_lib_heap, of 7] obtain a s where "s \<in> {''me'', ''you'', ''prog''}" "cfg_identity (configuration h1) = Some a" "strs h1 a = Some (cblock s)"
    by auto
  then show ?thesis using run by (intro exI [of _ "?out(7 := Formatting (cfg_identity (configuration h1)))"] exI [of _ h1] exI [of _ a] exI [of _ s]) simp
qed

text \<open>C27: the identity a caller gave can be lost: when another thread has found the library not yet
  initialised before \<open>mdclog_init\<close> is called, and goes on when that call has returned, it initialises
  the library again with the program name and frees the identity that was set.\<close>

theorem init_race_loses_identity:
  assumes "lib_raw h t i cs" "init_done (configuration h) = 0" "cstr (progname h) = Some pn" "2 * length pn + 1 < SIZE_MOD" "length pn \<le> INT_MAX"
    "attrs h a = Some \<lparr>attr_identity = Some p\<rparr>" "strs h p = Some (cblock s)" "NUL \<notin> set s" "p \<notin> str_addrs cs"
    "cfg_identity (configuration h) \<noteq> Some p" "u \<noteq> w"
  shows "\<exists>pcs1 h1 pcs2 h2. race_step\<^sup>*\<^sup>* ((\<lambda>u. Outside), h) (pcs1, h1) \<and> pcs1 w = Returned \<and> lib_rep h1 t (Some s) cs \<and>
    race_step\<^sup>*\<^sup>* (pcs1, h1) (pcs2, h2) \<and> pcs2 w = Returned \<and> pcs2 u = Returned \<and> lib_rep h2 t (Some (escape_str pn)) cs \<and> strs h2 p = None"
proof -
  let ?out = "\<lambda>u. Outside" and ?r = "set_log_format_init_done 0 (set_init_done 0 h)"
  have flags: "init_done (configuration ?r) = 0" "attrs ?r = attrs h" "strs ?r = strs h" "progname ?r = progname h"
    "cfg_identity (configuration ?r) = cfg_identity (configuration h)"
    by (simp_all add: set_log_format_init_done_def set_init_done_def)
  have raw: "lib_raw ?r t i cs" by (rule lib_raw_cong [OF assms(1)]) (simp_all add: set_log_format_init_done_def set_init_done_def)
  have "attrs ?r a = Some \<lparr>attr_identity = Some p\<rparr>" "strs ?r p = Some (cblock s)" "cfg_identity (configuration ?r) \<noteq> Some p"
    using assms(6,7,10) flags by simp_all
  from init_library_attr [OF raw flags(1) this(1,2) assms(8,9) this(3)]
  obtain h1 where h1: "init_library (Some a) ?r = Some h1" "lib_rep h1 t (Some s) cs" "same_lib ?r h1" "cfg_identity (configuration h1) = Some p"
    by blast
  have rep: "mdc_rep h1 t cs" "env_ok t h1" "ident_owned h1 (Some s) cs" using h1(2) by (simp_all add: lib_rep_def)
  have "once_ec h1 = 0" "key_create_ec h1 = 0" using h1(3) raw by (auto simp: same_lib_def lib_raw_def)
  then have m: "mdclog_internal_init_mdc h1 = Some (0, h1)"
    using init_mdc_ok [of h1] key_created_idem [OF mdc_repD(2) [OF rep(1)]] by simp
  have "cstr (progname h1) = Some pn" using h1(3) assms(3) flags(4) by (simp add: same_lib_def)
  from init_locked_default [OF rep this assms(4,5), of None] obtain h2 b where
    h2: "init_locked None h1 = Some h2" "lib_rep h2 t (Some (escape_str pn)) cs" "strs h1 b = None"
      "strs h2 = (strs h1 |` (- {p}))(b \<mapsto> cblock (escape_str pn))" using h1(4) by (auto simp: attr_ident_def)
  have "strs h1 p \<noteq> None" using rep(3) h1(4) by (auto simp: ident_owned_def)
  then have "p \<noteq> b" using h2(3) by metis
  then have gone: "strs h2 p = None" unfolding h2(4) by simp
  let ?p1 = "?out(u := Check None)" and ?p2 = "?out(u := Once None)"
  let ?p3 = "?p2(w := Check (Some a))" and ?p4 = "?p2(w := Returned)"
  have s1: "race_step (?out, h) (?p1, h)" using race_step.enter_api [of ?out u h] by simp
  have s2: "race_step (?p1, h) (?p2, h)" using race_step.check_todo [of ?p1 u None h] assms(2) by simp
  have s3: "race_step (?p2, h) (?p3, ?r)" using race_step.enter_init [of ?p2 w "Some a" h] assms(6,11) by simp
  have s4: "race_step\<^sup>*\<^sup>* (?p3, ?r) (?p4, h1)" using init_library_steps [of ?p3 w "Some a" ?r h1] h1(1) by simp
  have run1: "race_step\<^sup>*\<^sup>* (?out, h) (?p4, h1)"
    by (rule converse_rtranclp_into_rtranclp [OF s1 converse_rtranclp_into_rtranclp [OF s2 converse_rtranclp_into_rtranclp [OF s3 s4]]])
  have s5: "race_step (?p4, h1) (?p4(u := Lock None), h1)" using race_step.once [of ?p4 u None h1 0 h1] m assms(11) by simp
  have s6: "race_step (?p4(u := Lock None), h1) (?p4(u := Returned), h2)"
    using race_step.body [of "?p4(u := Lock None)" u None h1 h2] h2(1) by simp
  have run2: "race_step\<^sup>*\<^sup>* (?p4, h1) (?p4(u := Returned), h2)"
    by (rule converse_rtranclp_into_rtranclp [OF s5 r_into_rtranclp [of race_step, OF s6]])
  show ?thesis
    by (intro exI [of _ ?p4] exI [of _ h1] exI [of _ "?p4(u := Returned)"] exI [of _ h2] conjI)
      (use run1 run2 h1(2) h2(2) gone assms(11) in simp_all)
qed

theorem init_race_loses_identity_witness:
  "\<exists>pcs1 h1 pcs2 h2. race_step\<^sup>*\<^sup>* ((\<lambda>u. Outside), race_lib) (pcs1, h1) \<and> lib_rep h1 1 (Some ''you'') [sample_cell] \<and>
    race_step\<^sup>*\<^sup>* (pcs1, h1) (pcs2, h2) \<and> lib_rep h2 1 (Some ''prog'') [sample_cell]"
proof -
  have "2 * length ''prog'' + 1 < SIZE_MOD" "length ''prog'' \<le> INT_MAX" "attrs race_lib 9 = Some \<lparr>attr_identity = Some 5\<rparr>" "NUL \<notin> set ''you''"
    "5 \<notin> str_addrs [sample_cell]" "cfg_identity (configuration race_lib) \<noteq> Some 5" "(7 :: nat) \<noteq> 8"
    by (simp_all add: SIZE_MOD_def INT_MAX_def race_lib_simps sample_cell_def)
  from init_race_loses_identity [OF race_lib_raw race_lib_simps(2,1) this(1-3) race_lib_simps(4) this(4-7)]
  show ?thesis unfolding race_lib_simps(6) by blast
qed

end
