(* ===== verification/Log_Config.thy ===== *)
theory Log_Config
  imports Mdclog
begin

text \<open>
  The second half of \<open>src/src/mdclog.c\<close>: the log level from a configuration file, the thread that
  watches the file, and \<open>mdclog_format_initialize\<close>, which fills the context from the environment.

  The state of the library is extended with what these functions ask the system: the environment
  variables, the files that can be opened and their contents, the process id and the answers of
  \<open>lstat\<close>, \<open>inotify\<close> and \<open>pthread_create\<close>. \<open>monitors\<close> collects the arguments of the threads that
  were started, \<open>printed\<close> the text that went through \<open>printf\<close>. File names are C strings that are
  handed on unchanged, so they are modelled by the string they hold.
\<close>

record log_env = mdclog +
  getenv_val :: "string \<Rightarrow> block option"
  files :: "string \<Rightarrow> string option"
  lstat_ret :: "string \<Rightarrow> int"
  getpid_val :: int
  pthread_create_ret :: int
  monitors :: "addr option list"
  printed :: "string list"

abbreviation STR_BUFF :: nat where
  "STR_BUFF \<equiv> 128"

abbreviation LOG_FILE_CONFIG_MAP :: string where
  "LOG_FILE_CONFIG_MAP \<equiv> ''CONFIG_MAP_NAME''"

definition LOGFIELDS :: "string list" where
  "LOGFIELDS = [''SYSTEM_NAME'', ''HOST_NAME'', ''SERVICE_NAME'', ''CONTAINER_NAME'', ''POD_NAME'']"

section \<open>The environment\<close>

definition read_env_param :: "string option \<Rightarrow> 'a log_env_scheme \<Rightarrow> (addr option \<times> 'a log_env_scheme) option" where
  "read_env_param envkey h = (case envkey of
      None \<Rightarrow> Some (None, h)
    | Some k \<Rightarrow> (case getenv_val h k of None \<Rightarrow> Some (None, h) | Some v \<Rightarrow> strdup v h))"

section \<open>The log level\<close>

definition strcasecmp_eq :: "string \<Rightarrow> string \<Rightarrow> bool" where
  "strcasecmp_eq a b \<longleftrightarrow> map tolower a = map tolower b"

text \<open>The level a name stands for; \<open>MDCLOG_ERR\<close> where it is none.\<close>

definition level_of :: "string \<Rightarrow> severity" where
  "level_of s = (if strcasecmp_eq s ''ERR'' then MDCLOG_ERR else if strcasecmp_eq s ''WARN'' then MDCLOG_WARN
     else if strcasecmp_eq s ''INFO'' then MDCLOG_INFO else if strcasecmp_eq s ''DEBUG'' then MDCLOG_DEBUG else MDCLOG_ERR)"

definition update_mdc_log_level_severity :: "addr option \<Rightarrow> 'a log_env_scheme \<Rightarrow> 'a log_env_scheme option" where
  "update_mdc_log_level_severity log_level h = (case log_level of
      None \<Rightarrow> Some (mdclog_level_set MDCLOG_ERR (h\<lparr>printed := printed h @
        [''### ERR ### Invalid Log-Level Configuration in ConfigMap, Default Log-Level Applied:   '' @ dec MDCLOG_ERR @ [NEWLINE]]\<rparr>))
    | Some a \<Rightarrow> do { s \<leftarrow> str_at (Some a) h; Some (mdclog_level_set (level_of s) h) })"

section \<open>The configuration file\<close>

text \<open>\<open>fgets\<close> with a buffer of \<open>n + 1\<close> bytes: the bytes up to and with the first newline, at most
  \<open>n\<close> of them, and the rest of the file.\<close>

fun fgets_chars :: "nat \<Rightarrow> string \<Rightarrow> string \<times> string" where
  "fgets_chars 0 s = ([], s)"
| "fgets_chars (Suc n) [] = ([], [])"
| "fgets_chars (Suc n) (c # cs) =
     (if c = NEWLINE then ([c], cs) else (case fgets_chars n cs of (l, r) \<Rightarrow> (c # l, r)))"

text \<open>\<open>strtok\<close> on the text from a position: the token, if there is one, and the text after it.\<close>

definition strtok_at :: "char list \<Rightarrow> string \<Rightarrow> string option \<times> string" where
  "strtok_at delims s = (let r = dropWhile (\<lambda>c. c \<in> set delims) s in
     if r = [] then (None, [])
     else (Some (takeWhile (\<lambda>c. c \<notin> set delims) r), drop 1 (dropWhile (\<lambda>c. c \<notin> set delims) r)))"

text \<open>\<open>strtok(token, "\n")\<close>, which goes on behind the last token when \<open>token\<close> is NULL.\<close>

definition strip_newline :: "string option \<Rightarrow> string \<Rightarrow> string option" where
  "strip_newline token saved = fst (strtok_at [NEWLINE] (case token of None \<Rightarrow> saved | Some t \<Rightarrow> t))"

lemma fgets_chars_length: "length (snd (fgets_chars n s)) \<le> length s"
  by (induction n s rule: fgets_chars.induct) (auto split: prod.splits)

lemma fgets_chars_shorter: "0 < n \<Longrightarrow> s \<noteq> [] \<Longrightarrow> length (snd (fgets_chars n s)) < length s"
  using fgets_chars_length [of "n - 1" "tl s"] by (cases n; cases s) (auto simp: less_Suc_eq_le split: prod.splits)

text \<open>The loop over the lines: \<open>Some None\<close> when no line has the key, \<open>Some (Some token)\<close> with the
  token of the first line that does. A line without any token ends in \<open>strcmp(NULL, \<dots>)\<close>.\<close>

function parse_lines :: "string \<Rightarrow> string option option option" where
  "parse_lines s = (if s = [] then Some None
     else (case fgets_chars (STR_BUFF - 1) s of (line, rest) \<Rightarrow>
       (case strtok_at '': '' (takeWhile (\<lambda>c. c \<noteq> NUL) line) of
          (None, _) \<Rightarrow> None
        | (Some token, saved) \<Rightarrow>
            if token = ''log-level''
            then (case strtok_at '': '' saved of (token1, saved1) \<Rightarrow> Some (Some (strip_newline token1 saved1)))
            else parse_lines rest)))"
  by pat_completeness auto
termination
proof (relation "measure length")
  fix s :: string and line rest
  assume s: "s \<noteq> []" and f: "(line, rest) = fgets_chars (STR_BUFF - 1) s"
  have "rest = snd (fgets_chars (STR_BUFF - 1) s)" unfolding f [symmetric] by simp
  then show "(rest, s) \<in> measure length" using fgets_chars_shorter [OF _ s, of "STR_BUFF - 1"] by simp
qed simp

declare parse_lines.simps [simp del]

definition parse_file :: "string \<Rightarrow> 'a log_env_scheme \<Rightarrow> (addr option \<times> 'a log_env_scheme) option" where
  "parse_file filename h = (case files h filename of
      None \<Rightarrow> Some (None, h)
    | Some content \<Rightarrow> do {
        found \<leftarrow> parse_lines content;
        (case found of
           None \<Rightarrow> Some (None, h)
         | Some token \<Rightarrow> do { t \<leftarrow> token; strdup (cblock t) h }) })"

text \<open>The update of the level from the file, as the initialisation and the monitor make it.\<close>

definition level_from_file :: "string \<Rightarrow> 'a log_env_scheme \<Rightarrow> 'a log_env_scheme option" where
  "level_from_file filename h = do {
     (log_level, h1) \<leftarrow> parse_file filename h;
     h2 \<leftarrow> update_mdc_log_level_severity log_level h1;
     free_block log_level h2
   }"

section \<open>The monitor\<close>

text \<open>One round of the monitor's loop: \<open>select\<close> runs into its timeout, the read of the event fails,
  or there is an event and the level is taken from the file again.\<close>

datatype monitor_event = Timeout | ReadError | Event

definition monitor_round :: "string \<Rightarrow> monitor_event \<Rightarrow> 'a log_env_scheme \<Rightarrow> 'a log_env_scheme option" where
  "monitor_round filename ev h = (case ev of
      Timeout \<Rightarrow> Some h
    | ReadError \<Rightarrow> Some h
    | Event \<Rightarrow> level_from_file filename h)"

text \<open>The set-up of the thread: the names of the directory and the file, and the flag that keeps the
  loop running. \<open>ifd\<close> and \<open>wfd\<close> are the descriptors \<open>inotify\<close> hands out.\<close>

definition split_name :: "string \<Rightarrow> string \<times> string option" where
  "split_name s = (if CHR ''/'' \<in> set s
     then (butlast (rev (dropWhile (\<lambda>c. c \<noteq> CHR ''/'') (rev s))), Some (rev (takeWhile (\<lambda>c. c \<noteq> CHR ''/'') (rev s))))
     else (s, None))"

text \<open>The result of the set-up: whether the loop is entered, and the two names it has to free.\<close>

definition monitor_start ::
  "addr option \<Rightarrow> int \<Rightarrow> int \<Rightarrow> 'a log_env_scheme \<Rightarrow> (bool \<times> addr option \<times> addr option \<times> 'a log_env_scheme) option" where
  "monitor_start arg ifd wfd h = do {
     name \<leftarrow> deref arg h;
     (dname, h1) \<leftarrow> strdup name h;
     d \<leftarrow> dname;
     s \<leftarrow> str_at dname h1;
     (case split_name s of
        (dir, None) \<Rightarrow> Some (ifd \<ge> 0 \<and> wfd \<ge> 0, dname, None,
          if ifd \<ge> 0 \<and> wfd \<ge> 0 then set_log_format_init_done 1 h1 else h1)
      | (dir, Some base) \<Rightarrow> do {
          b \<leftarrow> strs h1 d;
          h2 \<leftarrow> store_block d (b[length dir := NUL]) h1;
          (bname, h3) \<leftarrow> strdup (cblock base) h2;
          Some (ifd \<ge> 0 \<and> wfd \<ge> 0, dname, bname,
            if ifd \<ge> 0 \<and> wfd \<ge> 0 then set_log_format_init_done 1 h3 else h3) }) }"

definition monitor_finish :: "addr option \<Rightarrow> addr option \<Rightarrow> 'a log_env_scheme \<Rightarrow> 'a log_env_scheme option" where
  "monitor_finish dname bname h = do { h1 \<leftarrow> free_block bname h; free_block dname h1 }"

section \<open>Starting the monitor\<close>

definition register_log_change_notify :: "string \<Rightarrow> 'a log_env_scheme \<Rightarrow> (int \<times> 'a log_env_scheme) option" where
  "register_log_change_notify fileName h = do {
     (p, h1) \<leftarrow> strdup (cblock fileName) h;
     if pthread_create_ret h1 = 0 then Some (0, h1\<lparr>monitors := monitors h1 @ [p]\<rparr>)
     else Some (pthread_create_ret h1, h1)
   }"

definition enable_log_change_notify :: "string \<Rightarrow> 'a log_env_scheme \<Rightarrow> (int \<times> 'a log_env_scheme) option" where
  "enable_log_change_notify fileName h =
     (if lstat_ret h fileName = 0 then register_log_change_notify fileName h else Some (- 1, h))"

section \<open>Filling the context\<close>

definition update_mdclog_array :: "thread \<Rightarrow> block \<Rightarrow> block \<Rightarrow> 'a log_env_scheme \<Rightarrow> (int \<times> 'a log_env_scheme) option" where
  "update_mdclog_array t key value h = do {
     (old_value, h1) \<leftarrow> mdclog_mdc_get t (Some key) h;
     h2 \<leftarrow> (case old_value of
         None \<Rightarrow> Some h1
       | Some _ \<Rightarrow> do { h2 \<leftarrow> mdclog_mdc_remove t (Some key) h1; free_block old_value h2 });
     mdclog_mdc_add t (Some key) (Some value) h2
   }"

fun fields_loop :: "thread \<Rightarrow> string list \<Rightarrow> int \<Rightarrow> 'a log_env_scheme \<Rightarrow> (int \<times> 'a log_env_scheme) option" where
  "fields_loop t [] ret h = Some (ret, h)"
| "fields_loop t (f # fs) ret h =
     (if ret \<noteq> 0 then Some (ret, h)
      else do {
        (field_value, h1) \<leftarrow> read_env_param (Some f) h;
        (case field_value of
           Some a \<Rightarrow> do {
             v \<leftarrow> strs h1 a;
             (ret, h2) \<leftarrow> update_mdclog_array t (cblock f) v h1;
             h3 \<leftarrow> free_block field_value h2;
             fields_loop t fs ret h3 }
         | None \<Rightarrow> do {
             (_, h2) \<leftarrow> mdclog_mdc_add t (Some (cblock f)) (Some (cblock [])) h1;
             fields_loop t fs ret h2 }) })"

text \<open>The part of \<open>mdclog_format_initialize\<close> that deals with the configuration file.\<close>

definition init_level :: "bool \<Rightarrow> int \<Rightarrow> addr option \<Rightarrow> 'a log_env_scheme \<Rightarrow> (int \<times> 'a log_env_scheme) option" where
  "init_level logfile_monitor ret logFile_Name h = (case logFile_Name of
      None \<Rightarrow> Some (ret, h)
    | Some _ \<Rightarrow> do {
        name \<leftarrow> str_at logFile_Name h;
        h1 \<leftarrow> level_from_file name h;
        (ret, h2) \<leftarrow> (if logfile_monitor \<and> ret = 0 then enable_log_change_notify name h1 else Some (ret, h1));
        h3 \<leftarrow> free_block logFile_Name h2;
        Some (ret, h3) })"

definition mdclog_format_initialize :: "thread \<Rightarrow> int \<Rightarrow> 'a log_env_scheme \<Rightarrow> (int \<times> 'a log_env_scheme) option" where
  "mdclog_format_initialize t logfile_monitor h =
     (if log_format_init_done (configuration h) = 0 then do {
        (ret, h1) \<leftarrow> fields_loop t LOGFIELDS 0 h;
        if ret = 0 then do {
          (_, buff_string) \<leftarrow> snprintf_at (replicate STR_BUFF NUL) 0 STR_BUFF (dec_int (getpid_val h1));
          (logFile_Name, h2) \<leftarrow> read_env_param (Some LOG_FILE_CONFIG_MAP) h1;
          (ret, h3) \<leftarrow> update_mdclog_array t (cblock ''PID'') buff_string h2;
          init_level (logfile_monitor \<noteq> 0) ret logFile_Name h3
        } else Some (ret, h1)
      } else Some (0, h))"

end
