(* ===== verification/Log_Config_Correct.thy ===== *)
theory Log_Config_Correct
  imports Log_Config Mdclog_Correct
begin

text \<open>
  Correctness of the configuration of the log level and of \<open>mdclog_format_initialize\<close>: what the
  parser finds in a configuration file and where it faults, the level the library ends up with, the
  context after the initialisation, and the states the monitor can reach.
\<close>

section \<open>The configuration file\<close>

lemma fgets_line: "NEWLINE \<notin> set l \<Longrightarrow> length l < n \<Longrightarrow> fgets_chars n (l @ NEWLINE # r) = (l @ [NEWLINE], r)"
proof (induction l arbitrary: n)
  case Nil
  then show ?case by (cases n) auto
next
  case (Cons c l)
  then show ?case by (cases n) auto
qed

lemma fgets_rest: "NEWLINE \<notin> set l \<Longrightarrow> length l < n \<Longrightarrow> fgets_chars n l = (l, [])"
proof (induction l arbitrary: n)
  case Nil
  then show ?case by (cases n) auto
next
  case (Cons c l)
  then show ?case by (cases n) auto
qed

text \<open>A line that \<open>fgets\<close> reads in one piece.\<close>

definition config_line :: "string \<Rightarrow> bool" where
  "config_line l \<longleftrightarrow> NEWLINE \<notin> set l \<and> NUL \<notin> set l \<and> length l < STR_BUFF - 1"

lemma takeWhile_no_NUL: "NUL \<notin> set s \<Longrightarrow> takeWhile (\<lambda>c. c \<noteq> NUL) s = s"
  by (simp add: takeWhile_eq_all_conv) metis

lemma parse_lines_step:
  assumes "config_line l"
  shows "parse_lines (l @ NEWLINE # r) =
    (case strtok_at '': '' (l @ [NEWLINE]) of
       (None, _) \<Rightarrow> None
     | (Some token, saved) \<Rightarrow>
         if token = ''log-level''
         then (case strtok_at '': '' saved of (token1, saved1) \<Rightarrow> Some (Some (strip_newline token1 saved1)))
         else parse_lines r)"
proof -
  have "fgets_chars (STR_BUFF - 1) (l @ NEWLINE # r) = (l @ [NEWLINE], r)"
    using assms by (intro fgets_line) (simp_all add: config_line_def)
  moreover have "takeWhile (\<lambda>c. c \<noteq> NUL) (l @ [NEWLINE]) = l @ [NEWLINE]"
    using assms by (intro takeWhile_no_NUL) (simp add: config_line_def)
  ultimately show ?thesis by (subst parse_lines.simps) simp
qed

text \<open>The text of a file.\<close>

definition lines_text :: "string list \<Rightarrow> string" where
  "lines_text ls = concat (map (\<lambda>l. l @ [NEWLINE]) ls)"

text \<open>What the parser is meant to do, said of whole lines: the first line whose first word is the key,
  with a separator behind it, and the second word of that line.\<close>

definition separator :: "char \<Rightarrow> bool" where
  "separator c \<longleftrightarrow> c = CHR '':'' \<or> c = CHR '' ''"

definition after_key :: "string \<Rightarrow> string" where
  "after_key l = dropWhile (\<lambda>c. \<not> separator c) (dropWhile separator l)"

definition level_line :: "string \<Rightarrow> bool" where
  "level_line l \<longleftrightarrow> takeWhile (\<lambda>c. \<not> separator c) (dropWhile separator l) = ''log-level'' \<and> after_key l \<noteq> []"

definition line_value :: "string \<Rightarrow> string option" where
  "line_value l = (let v = takeWhile (\<lambda>c. \<not> separator c) (dropWhile separator (after_key l)) in if v = [] then None else Some v)"

lemma strtok_separator:
  "strtok_at '': '' s = (let r = dropWhile separator s in if r = [] then (None, [])
     else (Some (takeWhile (\<lambda>c. \<not> separator c) r), drop 1 (dropWhile (\<lambda>c. \<not> separator c) r)))"
proof -
  have "(\<lambda>c. c \<in> set '': '') = separator" "(\<lambda>c. c \<notin> set '': '') = (\<lambda>c. \<not> separator c)" by (auto simp: separator_def)
  then show ?thesis unfolding strtok_at_def by (simp only:)
qed

lemma separator_NEWLINE [simp]: "\<not> separator NEWLINE"
  by (simp add: separator_def)

lemma separator_NUL [simp]: "\<not> separator NUL"
  by (simp add: separator_def)

lemma dropWhile_snoc: "\<not> P x \<Longrightarrow> dropWhile P (l @ [x]) = dropWhile P l @ [x]"
  by (induction l) simp_all

lemma takeWhile_snoc: "P x \<Longrightarrow> takeWhile P (l @ [x]) = (if dropWhile P l = [] then l @ [x] else takeWhile P l)"
  by (induction l) simp_all

lemma dropWhile_snoc_keep: "P x \<Longrightarrow> dropWhile P (l @ [x]) = (if dropWhile P l = [] then [] else dropWhile P l @ [x])"
  by (induction l) simp_all

text \<open>\<open>strtok\<close> on a line with its newline.\<close>

lemma strtok_line:
  "strtok_at '': '' (l @ [NEWLINE]) = (let r = dropWhile separator l in
     if dropWhile (\<lambda>c. \<not> separator c) r = [] then (Some (r @ [NEWLINE]), [])
     else (Some (takeWhile (\<lambda>c. \<not> separator c) r), drop 1 (dropWhile (\<lambda>c. \<not> separator c) r) @ [NEWLINE]))"
  by (simp add: strtok_separator dropWhile_snoc takeWhile_snoc dropWhile_snoc_keep Let_def Suc_le_eq)

lemma strip_newline_word:
  assumes "NEWLINE \<notin> set v"
  shows "strip_newline (Some (v @ [NEWLINE])) s = (if v = [] then None else Some v)"
    "v \<noteq> [] \<Longrightarrow> strip_newline (Some v) s = Some v"
proof -
  have d: "dropWhile (\<lambda>c. c \<in> set [NEWLINE]) v = v" using assms by (cases v) auto
  have t: "takeWhile (\<lambda>c. c \<notin> set [NEWLINE]) v = v" "dropWhile (\<lambda>c. c \<notin> set [NEWLINE]) v = []"
    using assms by (auto simp: takeWhile_eq_all_conv dropWhile_eq_Nil_conv)
  show "v \<noteq> [] \<Longrightarrow> strip_newline (Some v) s = Some v"
    unfolding strip_newline_def strtok_at_def Let_def option.case d t by simp
  have "dropWhile (\<lambda>c. c \<in> set [NEWLINE]) (v @ [NEWLINE]) = (if v = [] then [] else v @ [NEWLINE])"
    using assms by (cases v) auto
  moreover have "takeWhile (\<lambda>c. c \<notin> set [NEWLINE]) (v @ [NEWLINE]) = v"
    using assms by (subst takeWhile_append2) auto
  ultimately show "strip_newline (Some (v @ [NEWLINE])) s = (if v = [] then None else Some v)"
    unfolding strip_newline_def strtok_at_def Let_def option.case by simp
qed

lemma dropWhile_drop1: "drop 1 (dropWhile (\<lambda>c. \<not> P c) r) = s \<Longrightarrow> dropWhile (\<lambda>c. \<not> P c) r \<noteq> [] \<Longrightarrow>
   dropWhile P s = dropWhile P (dropWhile (\<lambda>c. \<not> P c) r)"
  by (induction r) auto

lemma parse_level_line:
  assumes "config_line l" "level_line l" shows "parse_lines (l @ NEWLINE # r) = Some (Some (line_value l))"
proof -
  let ?w = "dropWhile (\<lambda>c. \<not> separator c) (dropWhile separator l)"
  let ?s = "dropWhile separator (after_key l)"
  have k: "?w \<noteq> []" "takeWhile (\<lambda>c. \<not> separator c) (dropWhile separator l) = ''log-level''"
    using assms(2) by (simp_all add: level_line_def after_key_def)
  have s: "dropWhile separator (drop 1 ?w) = ?s" using dropWhile_drop1 [OF refl k(1)] by (simp add: after_key_def)
  have "NEWLINE \<notin> set l" using assms(1) by (simp add: config_line_def)
  then have n: "NEWLINE \<notin> set ?s" "NEWLINE \<notin> set (takeWhile (\<lambda>c. \<not> separator c) ?s)"
    unfolding after_key_def by (meson set_dropWhileD set_takeWhileD)+
  have v: "?s = [] \<longleftrightarrow> takeWhile (\<lambda>c. \<not> separator c) ?s = []"
    by (metis takeWhile_eq_Nil_iff hd_dropWhile)
  have "strtok_at '': '' (l @ [NEWLINE]) = (Some ''log-level'', drop 1 ?w @ [NEWLINE])"
    unfolding strtok_line Let_def k(2) using k(1) by simp
  moreover have "strip_newline (fst (strtok_at '': '' (drop 1 ?w @ [NEWLINE]))) x = line_value l" for x
  proof (cases "dropWhile (\<lambda>c. \<not> separator c) ?s = []")
    case True
    then have t: "takeWhile (\<lambda>c. \<not> separator c) ?s = ?s" by (metis takeWhile_dropWhile_id append_Nil2)
    show ?thesis unfolding strtok_line s Let_def line_value_def if_P [OF True] fst_conv strip_newline_word(1) [OF n(1)] t by simp
  next
    case False
    then have "?s \<noteq> []" by (metis dropWhile.simps(1))
    then have ne: "takeWhile (\<lambda>c. \<not> separator c) ?s \<noteq> []" using v by blast
    show ?thesis unfolding strtok_line s Let_def line_value_def if_not_P [OF False] fst_conv strip_newline_word(2) [OF n(2) ne] using ne by (simp only: if_False)
  qed
  ultimately show ?thesis unfolding parse_lines_step [OF assms(1)] by (simp add: split_beta)
qed

lemma parse_other_line:
  assumes "config_line l" "\<not> level_line l" shows "parse_lines (l @ NEWLINE # r) = parse_lines r"
proof -
  have "\<exists>token saved. strtok_at '': '' (l @ [NEWLINE]) = (Some token, saved) \<and> token \<noteq> ''log-level''"
  proof (cases "after_key l = []")
    case True
    have "NEWLINE \<notin> set ''log-level''" by simp
    then have "dropWhile separator l @ [NEWLINE] \<noteq> ''log-level''" by (metis in_set_conv_decomp)
    then show ?thesis using True unfolding strtok_line Let_def after_key_def by auto
  next
    case False
    then show ?thesis using assms(2) unfolding strtok_line Let_def level_line_def after_key_def by auto
  qed
  then show ?thesis unfolding parse_lines_step [OF assms(1)] by auto
qed

lemma parse_lines_text:
  "list_all config_line ls \<Longrightarrow> parse_lines (lines_text ls @ r) =
   (case find level_line ls of None \<Rightarrow> parse_lines r | Some l \<Rightarrow> Some (Some (line_value l)))"
proof (induction ls)
  case (Cons l ls)
  then have "parse_lines (lines_text (l # ls) @ r) = parse_lines (l @ NEWLINE # lines_text ls @ r)" by (simp add: lines_text_def)
  then show ?case using Cons parse_level_line [of l] parse_other_line [of l] by simp
qed (simp add: lines_text_def)

lemma parse_lines_Nil [simp]: "parse_lines [] = Some None"
  by (subst parse_lines.simps) simp

lemma line_value_no_NUL: "config_line l \<Longrightarrow> line_value l = Some v \<Longrightarrow> NUL \<notin> set v"
  unfolding line_value_def after_key_def config_line_def Let_def
  by (auto split: if_splits dest!: set_takeWhileD set_dropWhileD)

section \<open>The level\<close>

lemma level_of_range: "MDCLOG_ERR \<le> level_of s \<and> level_of s \<le> MDCLOG_DEBUG"
  by (simp add: level_of_def)

text \<open>A round trip through the heap that leaves it as it was.\<close>

lemma level_from_file_found:
  assumes "files h f = Some content" "parse_lines content = Some (Some (Some v))" "NUL \<notin> set v" "malloc_ok h (brk h)" "strs h (brk h) = None"
  shows "level_from_file f h = Some (h\<lparr>brk := Suc (brk h), current_level := level_of v\<rparr>)"
proof -
  let ?h = "h\<lparr>brk := Suc (brk h), strs := (strs h)(brk h \<mapsto> cblock v)\<rparr>"
  have "cstr (cblock v) = Some v" using assms(3) by simp
  then have "parse_file f h = Some (Some (brk h), ?h)" using assms(1,2,4) by (simp add: parse_file_def)
  moreover have "update_mdc_log_level_severity (Some (brk h)) ?h = Some (?h\<lparr>current_level := level_of v\<rparr>)"
    using assms(3) by (simp add: update_mdc_log_level_severity_def str_at_def mdclog_level_set_def)
  ultimately show ?thesis using assms(5) by (simp add: level_from_file_def fun_upd_idem)
qed

lemma level_from_file_default:
  assumes "files h f = None \<or> (\<exists>c. files h f = Some c \<and> parse_lines c = Some None)"
  shows "\<exists>msg. level_from_file f h = Some (h\<lparr>printed := printed h @ [msg], current_level := MDCLOG_ERR\<rparr>)"
  using assms by (auto simp: level_from_file_def parse_file_def update_mdc_log_level_severity_def mdclog_level_set_def)

section \<open>Filling the context\<close>

text \<open>An operation of an initialised library that only touches the heap.\<close>

definition heap_only :: "'a mdclog_scheme \<Rightarrow> 'a mdclog_scheme \<Rightarrow> bool" where
  "heap_only h h' \<longleftrightarrow> mdc_heap.more h' = mdc_heap.more h"

lemma heap_only_refl [simp]: "heap_only h h"
  by (simp add: heap_only_def)

lemma heap_only_trans: "heap_only h h1 \<Longrightarrow> heap_only h1 h2 \<Longrightarrow> heap_only h h2"
  by (simp add: heap_only_def)

lemma heap_only_frame: "frame t h cs h' cs' \<Longrightarrow> heap_only h h'"
  by (simp add: heap_only_def frame_def)

lemma heap_only_strs [simp]: "heap_only h (h\<lparr>strs := s\<rparr>)" "heap_only h (h\<lparr>brk := n, strs := s\<rparr>)"
  by (cases h; simp add: heap_only_def)+

lemma heap_onlyD:
  assumes "heap_only h (h' :: 'a log_env_scheme)"
  shows "getenv_val h' = getenv_val h" "files h' = files h" "lstat_ret h' = lstat_ret h" "getpid_val h' = getpid_val h"
    "pthread_create_ret h' = pthread_create_ret h" "monitors h' = monitors h" "printed h' = printed h"
    "current_level h' = current_level h" "configuration h' = configuration h" "out h' = out h"
  using assms by (cases h; cases h'; simp add: heap_only_def)+

lemma lib_rep_free:
  assumes "lib_rep h t i cs" "a \<notin> str_addrs cs" "cfg_identity (configuration h) \<noteq> Some a"
  shows "lib_rep (h\<lparr>strs := (strs h)(a := None)\<rparr>) t i cs"
proof -
  have rep: "mdc_rep h t cs" using assms(1) by (simp add: lib_rep_def)
  have "seg (nodes h) ((strs h)(a := None)) None cs None" using mdc_repD(4) [OF rep] assms(2) by simp
  then have "mdc_rep (h\<lparr>strs := (strs h)(a := None)\<rparr>) t cs"
    using rep by (auto simp: mdc_rep_def heap_wf_def split: option.splits)
  then show ?thesis using assms(1,3) by (auto simp: lib_rep_def env_ok_def ident_owned_def split: option.splits)
qed

lemma mdc_remove_ok:
  assumes "lib_rep h t i cs" "c_string k"
  shows "\<exists>h' cs'. mdclog_mdc_remove t (Some (cblock k)) h = Some h' \<and> lib_rep h' t i cs' \<and> frame t h cs h' cs' \<and>
    pairs cs' = rm_spec k (pairs cs)"
proof -
  have rep: "mdc_rep h t cs" "env_ok t h" using assms(1) by (simp_all add: lib_rep_def)
  obtain h' cs' where "mdclog_internal_rm_mdc t (cblock k) h = Some h'" "mdc_rep h' t cs'" "frame t h cs h' cs'" "pairs cs' = rm_spec k (pairs cs)"
    using rm_mdc_ok [OF rep c_stringD(1) [OF assms(2)]] by blast
  then show ?thesis using lib_rep_init [OF assms(1), of None] lib_rep_frame [OF assms(1)] by (auto simp: mdclog_mdc_remove_def)
qed

lemma mdc_get_foreign:
  assumes "lib_rep h t i cs" "strs h a = None" shows "a \<notin> str_addrs cs" "cfg_identity (configuration h) \<noteq> Some a"
proof -
  have "seg (nodes h) (strs h) None cs None" using assms(1) by (simp add: lib_rep_def mdc_rep_def)
  then show "a \<notin> str_addrs cs" using seg_live(2) [of "nodes h" "strs h" None cs None a] assms(2) by auto
  show "cfg_identity (configuration h) \<noteq> Some a" using assms by (auto simp: lib_rep_def ident_owned_def)
qed

text \<open>A field name or value as the initialisation hands it on.\<close>

definition plain_key :: "string \<Rightarrow> bool" where
  "plain_key k \<longleftrightarrow> c_string k \<and> escape_str k = k \<and> length k \<le> INT_MAX"

text \<open>The first half of \<open>update_mdclog_array\<close>: the old entry, if there is one, is removed.\<close>

lemma remove_old_ok:
  assumes "lib_rep h t i cs" "c_string k"
  shows "\<exists>p h1 h2 cs2. mdclog_mdc_get t (Some (cblock k)) h = Some (p, h1) \<and>
    (case p of None \<Rightarrow> Some h1 | Some _ \<Rightarrow> do { h2 \<leftarrow> mdclog_mdc_remove t (Some (cblock k)) h1; free_block p h2 }) = Some h2 \<and>
    lib_rep h2 t i cs2 \<and> frame t h cs h2 cs2 \<and> pairs cs2 = rm_spec k (pairs cs)"
proof -
  obtain h1 where g: "mdc_rep h1 t cs" "frame t h cs h1 cs" "mdclog_mdc_get t (Some (cblock k)) h =
      Some (case map_of (pairs cs) k of None \<Rightarrow> (None, h1) | Some v \<Rightarrow> (Some (brk h1), new_block (cblock v) h1))"
    using mdc_get_frame [OF assms] by blast
  have lib: "lib_rep h1 t i cs" by (rule lib_rep_frame [OF assms(1) g(1,2)])
  show ?thesis
  proof (cases "map_of (pairs cs) k")
    case None
    then have "rm_spec k (pairs cs) = pairs cs" by (intro rm_spec_absent) (simp add: map_of_eq_None_iff)
    then show ?thesis using g None lib by auto
  next
    case (Some w)
    let ?h = "new_block (cblock w) h1"
    have "lib_rep ?h t i cs" by (rule lib_rep_new_block [OF lib]) (simp_all add: new_block_def)
    then obtain h2 cs2 where r: "mdclog_mdc_remove t (Some (cblock k)) ?h = Some h2" "lib_rep h2 t i cs2" "frame t ?h cs h2 cs2"
      "pairs cs2 = rm_spec k (pairs cs)" using mdc_remove_ok assms(2) by blast
    note f = frame_temp [OF g(1) _ r(3)] and rep = r(2) [unfolded lib_rep_def]
    have "lib_rep (release (brk h1) h2) t i cs2" using lib_rep_frame [OF lib f(4,5)] rep by blast
    then show ?thesis using g(3) Some r(1,4) f(3) rep frame_trans [OF g(2) f(5)]
      by (intro exI [of _ "Some (brk h1)"] exI [of _ ?h] exI [of _ "release (brk h1) h2"] exI [of _ cs2]) simp
  qed
qed

lemma update_mdclog_array_ok:
  assumes "lib_rep h t i cs" "plain_key k" "c_string v" "cstr value = Some v"
  shows "\<exists>h' cs'. update_mdclog_array t (cblock k) value h = Some (0, h') \<and> lib_rep h' t i cs' \<and> frame t h cs h' cs' \<and>
    pairs cs' = put_spec k (escape_str v) (rm_spec k (pairs cs))"
proof -
  have k: "c_string k" "escape_str k = k" "length k \<le> INT_MAX" using assms(2) by (simp_all add: plain_key_def)
  obtain p h1 h2 cs2 where g: "mdclog_mdc_get t (Some (cblock k)) h = Some (p, h1)"
    "(case p of None \<Rightarrow> Some h1 | Some _ \<Rightarrow> do { h2 \<leftarrow> mdclog_mdc_remove t (Some (cblock k)) h1; free_block p h2 }) = Some h2"
    and d: "lib_rep h2 t i cs2" "frame t h cs h2 cs2" "pairs cs2 = rm_spec k (pairs cs)" using remove_old_ok [OF assms(1) k(1)] by blast
  obtain h3 cs3 where e: "mdclog_mdc_add t (Some (cblock k)) (Some value) h2 = Some (0, h3)" "lib_rep h3 t i cs3" "frame t h2 cs2 h3 cs3"
    "pairs cs3 = put_spec k (escape_str v) (pairs cs2)" using mdc_add_ok [OF d(1) k(1) assms(3) k(2,3) assms(4)] by blast
  have "update_mdclog_array t (cblock k) value h = Some (0, h3)" using g e(1) by (simp add: update_mdclog_array_def)
  then show ?thesis using e(2,4) d(3) frame_trans [OF d(2) e(3)] by metis
qed

subsection \<open>The fields of the environment\<close>

definition env_value :: "'a log_env_scheme \<Rightarrow> string \<Rightarrow> string" where
  "env_value h f = (case getenv_val h f of None \<Rightarrow> [] | Some b \<Rightarrow> (case cstr b of None \<Rightarrow> [] | Some v \<Rightarrow> v))"

text \<open>The environment holds C strings.\<close>

definition env_strings :: "'a log_env_scheme \<Rightarrow> bool" where
  "env_strings h \<longleftrightarrow> (\<forall>f b. getenv_val h f = Some b \<longrightarrow> (\<exists>v. cstr b = Some v \<and> c_string v))"

text \<open>What the loop does to the context: a field that is set is removed and put in front, one that is
  not set gets the empty value in its place.\<close>

definition put_field :: "'a log_env_scheme \<Rightarrow> string \<Rightarrow> (string \<times> string) list \<Rightarrow> (string \<times> string) list" where
  "put_field h f ps = put_spec f (escape_str (env_value h f)) (if getenv_val h f = None then ps else rm_spec f ps)"

lemma read_env_ok:
  assumes "lib_rep h t i cs" "getenv_val h f = Some b" "cstr b = Some v"
  shows "read_env_param (Some f) h = Some (Some (brk h), new_block (cblock v) h)" "lib_rep (new_block (cblock v) h) t i cs"
proof -
  have "malloc_ok h (brk h)" using assms(1) by (simp add: lib_rep_def env_ok_def)
  then show "read_env_param (Some f) h = Some (Some (brk h), new_block (cblock v) h)"
    using assms(2,3) by (simp add: read_env_param_def new_block_def)
  show "lib_rep (new_block (cblock v) h) t i cs" by (rule lib_rep_new_block [OF assms(1)]) (simp_all add: new_block_def)
qed

lemma fields_loop_step:
  assumes "lib_rep h t i cs" "plain_key f" "env_strings h"
  shows "\<exists>h1 cs1. fields_loop t (f # fs) 0 h = fields_loop t fs 0 h1 \<and> lib_rep h1 t i cs1 \<and> frame t h cs h1 cs1 \<and>
    pairs cs1 = put_field h f (pairs cs)"
proof (cases "getenv_val h f")
  case None
  have f: "c_string f" "escape_str f = f" "length f \<le> INT_MAX" using assms(2) by (simp_all add: plain_key_def)
  have e: "c_string []" "cstr (cblock []) = Some []" by (simp_all add: c_string_def SIZE_MOD_def cstr_def)
  obtain h1 cs1 where a: "mdclog_mdc_add t (Some (cblock f)) (Some (cblock [])) h = Some (0, h1)" "lib_rep h1 t i cs1" "frame t h cs h1 cs1"
    "pairs cs1 = put_spec f (escape_str []) (pairs cs)" using mdc_add_ok [OF assms(1) f(1) e(1) f(2,3) e(2)] by blast
  have "fields_loop t (f # fs) 0 h = fields_loop t fs 0 h1" using None a(1) by (simp add: read_env_param_def)
  moreover have "pairs cs1 = put_field h f (pairs cs)" unfolding a(4) put_field_def using None by (simp add: env_value_def)
  ultimately show ?thesis using a(2,3) by blast
next
  case (Some b)
  then obtain v where v: "cstr b = Some v" "c_string v" using assms(3) by (auto simp: env_strings_def)
  note r = read_env_ok [OF assms(1) Some v(1)]
  obtain h2 cs2 where u: "update_mdclog_array t (cblock f) (cblock v) (new_block (cblock v) h) = Some (0, h2)"
    "lib_rep h2 t i cs2" "frame t (new_block (cblock v) h) cs h2 cs2" "pairs cs2 = put_spec f (escape_str v) (rm_spec f (pairs cs))"
    using update_mdclog_array_ok [OF r(2) assms(2) v(2) c_stringD(1) [OF v(2)]] by blast
  have rep: "mdc_rep h t cs" "mdc_rep h2 t cs2" using assms(1) u(2) by (simp_all add: lib_rep_def)
  note f = frame_temp [OF rep u(3)]
  have "strs (new_block (cblock v) h) (brk h) = Some (cblock v)" by (simp add: new_block_def)
  moreover have "pairs cs2 = put_field h f (pairs cs)" unfolding u(4) put_field_def using Some v(1) by (simp add: env_value_def)
  ultimately show ?thesis using r(1) u(1) f(3,5) lib_rep_frame [OF assms(1) f(4,5)]
    by (intro exI [of _ "release (brk h) h2"] exI [of _ cs2]) simp
qed

lemma fields_loop_ok:
  assumes "lib_rep h t i cs" "list_all plain_key fs" "env_strings h"
  shows "\<exists>h' cs'. fields_loop t fs 0 h = Some (0, h') \<and> lib_rep h' t i cs' \<and> frame t h cs h' cs' \<and>
    pairs cs' = fold (put_field h) fs (pairs cs)"
  using assms
proof (induction fs arbitrary: h cs)
  case Nil
  then show ?case by (auto intro: frame_refl)
next
  case (Cons f fs)
  have f: "plain_key f" using Cons.prems(2) by simp
  obtain h1 cs1 where s: "fields_loop t (f # fs) 0 h = fields_loop t fs 0 h1" "lib_rep h1 t i cs1" "frame t h cs h1 cs1"
    "pairs cs1 = put_field h f (pairs cs)"
    using fields_loop_step [OF Cons.prems(1) f Cons.prems(3), of fs] by blast
  have env: "env_strings h1" "put_field h1 = put_field h"
    using heap_onlyD(1) [OF heap_only_frame [OF s(3)]] Cons.prems(3) by (simp_all add: env_strings_def put_field_def env_value_def fun_eq_iff)
  obtain h' cs' where i: "fields_loop t fs 0 h1 = Some (0, h')" "lib_rep h' t i cs'" "frame t h1 cs1 h' cs'"
    "pairs cs' = fold (put_field h1) fs (pairs cs1)"
    using Cons.IH [OF s(2) _ env(1)] Cons.prems(2) by auto
  then show ?case using s(1,4) env(2) frame_trans [OF s(3) i(3)] by (intro exI [of _ h'] exI [of _ cs']) simp
qed

subsection \<open>The process id and the configuration file\<close>

lemma plain_keys: "list_all plain_key LOGFIELDS" "plain_key ''PID''"
  by (simp_all add: LOGFIELDS_def plain_key_def c_string_def SIZE_MOD_def INT_MAX_def literal_simps)

lemma dec_plain: "escape_str (dec n) = dec n" "NUL \<notin> set (dec n)"
proof -
  have "isprint c \<and> \<not> needs_escape c" if "c \<in> set (dec n)" for c
    using dec_digits [OF that] by (auto simp: isprint_def needs_escape_def)
  then show "escape_str (dec n) = dec n" by (auto simp: list_all_iff intro!: escape_plain)
  show "NUL \<notin> set (dec n)" by (rule printable_no_NUL [OF printable_dec])
qed

lemma pid_string:
  assumes "0 \<le> pid" "pid \<le> int INT_MAX"
  shows "\<exists>b. snprintf_at (replicate STR_BUFF NUL) 0 STR_BUFF (dec_int pid) = Some (int (length (dec (nat pid))), b) \<and>
    cstr b = Some (dec (nat pid)) \<and> c_string (dec (nat pid))"
proof -
  have d: "dec_int pid = dec (nat pid)" using assms(1) by (simp add: dec_int_def)
  have "nat pid < 10 ^ 10" using assms(2) by (simp add: INT_MAX_def)
  then have l: "length (dec (nat pid)) \<le> 10" by (intro dec_length_le) auto
  then obtain b where b: "snprintf_at (replicate STR_BUFF NUL) 0 STR_BUFF (dec (nat pid)) = Some (int (length (dec (nat pid))), b)"
    "writes_at (replicate STR_BUFF NUL) 0 STR_BUFF (dec (nat pid)) b"
    using snprintf_fits [of 0 STR_BUFF "replicate STR_BUFF NUL" "dec (nat pid)"] by (auto simp: INT_MAX_def)
  moreover have "cstr b = Some (dec (nat pid))" by (rule writes_at_cstr [OF b(2) dec_plain(2)])
  moreover have "c_string (dec (nat pid))" using l dec_plain(2) by (simp add: c_string_def SIZE_MOD_def)
  ultimately show ?thesis using d by auto
qed

text \<open>What the initialisation writes into the context.\<close>

definition put_pid :: "'a log_env_scheme \<Rightarrow> (string \<times> string) list \<Rightarrow> (string \<times> string) list" where
  "put_pid h ps = put_spec ''PID'' (dec (nat (getpid_val h))) (rm_spec ''PID'' ps)"

definition init_pairs :: "'a log_env_scheme \<Rightarrow> (string \<times> string) list \<Rightarrow> (string \<times> string) list" where
  "init_pairs h ps = put_pid h (fold (put_field h) LOGFIELDS ps)"

definition init_context :: "'a log_env_scheme \<Rightarrow> (string \<rightharpoonup> string) \<Rightarrow> (string \<rightharpoonup> string)" where
  "init_context h m k = (if k = ''PID'' then Some (dec (nat (getpid_val h)))
     else if k \<in> set LOGFIELDS then Some (escape_str (env_value h k)) else m k)"

lemma map_of_put_field: "map_of (put_field h f ps) = (map_of ps)(f \<mapsto> escape_str (env_value h f))"
  unfolding put_field_def by (simp add: map_of_put_spec map_of_rm_spec del: put_spec.simps)

lemma map_of_put_fields:
  "map_of (fold (put_field h) fs ps) k = (if k \<in> set fs then Some (escape_str (env_value h k)) else map_of ps k)"
  by (induction fs arbitrary: ps) (auto simp: map_of_put_field)

lemma map_of_init_pairs: "map_of (init_pairs h ps) = init_context h (map_of ps)"
  unfolding init_pairs_def put_pid_def map_of_put_spec map_of_rm_spec init_context_def by (auto simp: fun_eq_iff map_of_put_fields)

text \<open>\<open>mdclog_format_initialize\<close> from the point where the fields are in the context.\<close>

definition format_rest :: "thread \<Rightarrow> int \<Rightarrow> 'a log_env_scheme \<Rightarrow> (int \<times> 'a log_env_scheme) option" where
  "format_rest t mon h = do {
     (_, buff_string) \<leftarrow> snprintf_at (replicate STR_BUFF NUL) 0 STR_BUFF (dec_int (getpid_val h));
     (logFile_Name, h1) \<leftarrow> read_env_param (Some LOG_FILE_CONFIG_MAP) h;
     (ret, h2) \<leftarrow> update_mdclog_array t (cblock ''PID'') buff_string h1;
     init_level (mon \<noteq> 0) ret logFile_Name h2 }"

lemma format_initialize_rest:
  "log_format_init_done (configuration h) = 0 \<Longrightarrow> fields_loop t LOGFIELDS 0 h = Some (0, h1) \<Longrightarrow> mdclog_format_initialize t mon h = format_rest t mon h1"
  by (simp add: mdclog_format_initialize_def format_rest_def)

lemma format_rest_no_file:
  assumes "lib_rep h t i cs" "0 \<le> getpid_val h" "getpid_val h \<le> int INT_MAX" "getenv_val h LOG_FILE_CONFIG_MAP = None"
  shows "\<exists>h' cs'. format_rest t mon h = Some (0, h') \<and> lib_rep h' t i cs' \<and> frame t h cs h' cs' \<and> pairs cs' = put_pid h (pairs cs)"
proof -
  obtain b where b: "snprintf_at (replicate STR_BUFF NUL) 0 STR_BUFF (dec_int (getpid_val h)) = Some (int (length (dec (nat (getpid_val h)))), b)"
    "cstr b = Some (dec (nat (getpid_val h)))" "c_string (dec (nat (getpid_val h)))" using pid_string [OF assms(2,3)] by blast
  obtain h' cs' where u: "update_mdclog_array t (cblock ''PID'') b h = Some (0, h')" "lib_rep h' t i cs'" "frame t h cs h' cs'"
    "pairs cs' = put_spec ''PID'' (escape_str (dec (nat (getpid_val h)))) (rm_spec ''PID'' (pairs cs))"
    using update_mdclog_array_ok [OF assms(1) plain_keys(2) b(3,2)] by blast
  have "format_rest t mon h = Some (0, h')" using b(1) u(1) assms(4) by (simp add: format_rest_def read_env_param_def init_level_def)
  moreover have "pairs cs' = put_pid h (pairs cs)" unfolding u(4) put_pid_def dec_plain(1) ..
  ultimately show ?thesis using u(2,3) by blast
qed

text \<open>The fields of the loop, seen from the state before it.\<close>

lemma fields_rest:
  assumes "lib_rep h t i cs" "log_format_init_done (configuration h) = 0" "env_strings h" "0 \<le> getpid_val h" "getpid_val h \<le> int INT_MAX"
  shows "\<exists>h1 cs1. mdclog_format_initialize t mon h = format_rest t mon h1 \<and> lib_rep h1 t i cs1 \<and> frame t h cs h1 cs1 \<and>
    put_pid h1 (pairs cs1) = init_pairs h (pairs cs) \<and> 0 \<le> getpid_val h1 \<and> getpid_val h1 \<le> int INT_MAX \<and> getenv_val h1 = getenv_val h"
proof -
  obtain h1 cs1 where l: "fields_loop t LOGFIELDS 0 h = Some (0, h1)" "lib_rep h1 t i cs1" "frame t h cs h1 cs1"
    "pairs cs1 = fold (put_field h) LOGFIELDS (pairs cs)" using fields_loop_ok [OF assms(1) plain_keys(1) assms(3)] by blast
  note env = heap_onlyD [OF heap_only_frame [OF l(3)]]
  have "put_pid h1 (pairs cs1) = init_pairs h (pairs cs)" unfolding l(4) init_pairs_def put_pid_def env(4) ..
  then show ?thesis using format_initialize_rest [OF assms(2) l(1)] l(2,3) env(1,4) assms(4,5) by (intro exI [of _ h1] exI [of _ cs1]) simp
qed

lemma format_initialize_no_file:
  assumes "lib_rep h t i cs" "log_format_init_done (configuration h) = 0" "env_strings h" "0 \<le> getpid_val h" "getpid_val h \<le> int INT_MAX"
    "getenv_val h LOG_FILE_CONFIG_MAP = None"
  shows "\<exists>h' cs'. mdclog_format_initialize t mon h = Some (0, h') \<and> lib_rep h' t i cs' \<and> frame t h cs h' cs' \<and>
    pairs cs' = init_pairs h (pairs cs)"
proof -
  obtain h1 cs1 where l: "mdclog_format_initialize t mon h = format_rest t mon h1" "lib_rep h1 t i cs1" "frame t h cs h1 cs1"
    "put_pid h1 (pairs cs1) = init_pairs h (pairs cs)" "0 \<le> getpid_val h1" "getpid_val h1 \<le> int INT_MAX" "getenv_val h1 LOG_FILE_CONFIG_MAP = None"
    using fields_rest [OF assms(1-5)] assms(6) by fastforce
  obtain h' cs' where "format_rest t mon h1 = Some (0, h')" "lib_rep h' t i cs'" "frame t h1 cs1 h' cs'" "pairs cs' = put_pid h1 (pairs cs1)"
    using format_rest_no_file [OF l(2,5-7)] by blast
  then show ?thesis using l(1,4) frame_trans [OF l(3)] by metis
qed

text \<open>Reading the level from the file and starting the monitor, with the name of the file in the
  block \<open>a\<close>: the block is freed. Where a thread was to be started, a copy of the name in the block
  \<open>m\<close> stays, whether there is a thread that owns it or not.\<close>

definition watch_result :: "bool \<Rightarrow> string \<Rightarrow> 'a log_env_scheme \<Rightarrow> int" where
  "watch_result mon f h = (if \<not> mon then 0 else if lstat_ret h f = 0 then pthread_create_ret h else - 1)"

definition watch_started :: "bool \<Rightarrow> string \<Rightarrow> 'a log_env_scheme \<Rightarrow> 'a log_env_scheme \<Rightarrow> addr \<Rightarrow> bool" where
  "watch_started mon f h h' m \<longleftrightarrow>
     (if mon \<and> lstat_ret h f = 0
      then strs h' m = Some (cblock f) \<and> monitors h' = (if pthread_create_ret h = 0 then monitors h @ [Some m] else monitors h)
      else strs h' m = None \<and> monitors h' = monitors h)"

lemma init_level_ok:
  assumes "lib_rep h t i cs" "strs h a = Some (cblock f)" "NUL \<notin> set f" "a \<notin> str_addrs cs" "cfg_identity (configuration h) \<noteq> Some a"
    "files h f = Some content" "parse_lines content = Some (Some (Some v))" "NUL \<notin> set v"
  shows "\<exists>h' m. init_level mon 0 (Some a) h = Some (watch_result mon f h, h') \<and> lib_rep h' t i cs \<and> watch_started mon f h h' m \<and>
    (strs h')(m := None) = (strs h)(a := None) \<and> current_level h' = level_of v \<and> configuration h' = configuration h"
proof -
  have ok: "malloc_ok h x" for x using assms(1) by (simp add: lib_rep_def env_ok_def)
  have rep: "mdc_rep h t cs" using assms(1) by (simp add: lib_rep_def)
  have fresh: "strs h (brk h) = None" "strs h (Suc (brk h)) = None" using mdc_repD(1) [OF rep] by (simp_all add: heap_wf_def)
  let ?m = "Suc (brk h)"
  have am: "a \<noteq> ?m" using assms(2) fresh(2) by auto
  define h1 where "h1 = h\<lparr>brk := ?m, current_level := level_of v\<rparr>"
  define h2 where "h2 = (if mon \<and> lstat_ret h f = 0 then h1\<lparr>brk := Suc ?m, strs := (strs h)(?m \<mapsto> cblock f),
      monitors := (if pthread_create_ret h = 0 then monitors h @ [Some ?m] else monitors h)\<rparr> else h1)"
  define h' where "h' = h2\<lparr>strs := (strs h2)(a := None)\<rparr>"
  have 1: "level_from_file f h = Some h1" unfolding h1_def by (rule level_from_file_found [OF assms(6-8) ok fresh(1)])
  have 2: "(if mon \<and> (0 :: int) = 0 then enable_log_change_notify f h1 else Some (0, h1)) = Some (watch_result mon f h, h2)"
    using assms(3) ok by (simp add: enable_log_change_notify_def register_log_change_notify_def h1_def h2_def watch_result_def)
  have 3: "free_block (Some a) h2 = Some h'" using assms(2) am by (simp add: h'_def h2_def h1_def)
  have "init_level mon 0 (Some a) h = Some (watch_result mon f h, h')"
    unfolding init_level_def using assms(2,3) 1 2 3 by (simp add: str_at_def)
  moreover have "lib_rep h2 t i cs"
  proof (cases "mon \<and> lstat_ret h f = 0")
    case True
    have "lib_rep h1 t i cs" by (rule lib_rep_cong [OF assms(1)]) (simp_all add: h1_def)
    then show ?thesis by (rule lib_rep_new_block) (simp_all add: h1_def h2_def True)
  next
    case False
    then have "h2 = h1" unfolding h2_def by (rule if_not_P)
    then show ?thesis by (intro lib_rep_cong [OF assms(1)]) (simp_all add: h1_def)
  qed
  then have "lib_rep h' t i cs" unfolding h'_def by (rule lib_rep_free [OF _ assms(4)]) (simp add: assms(5) h1_def h2_def)
  moreover have "watch_started mon f h h' ?m" using am fresh(2) by (simp add: watch_started_def h'_def h2_def h1_def)
  moreover have "(strs h')(?m := None) = (strs h)(a := None)" using am fresh(2) by (auto simp: h'_def h2_def h1_def fun_eq_iff)
  ultimately show ?thesis by (intro exI [of _ h'] exI [of _ ?m]) (simp add: h'_def h2_def h1_def)
qed

lemma format_rest_file:
  assumes "lib_rep h t i cs" "0 \<le> getpid_val h" "getpid_val h \<le> int INT_MAX" "getenv_val h LOG_FILE_CONFIG_MAP = Some b" "cstr b = Some f"
  shows "\<exists>h' cs' a. format_rest t mon h = init_level (mon \<noteq> 0) 0 (Some a) h' \<and> lib_rep h' t i cs' \<and> heap_only h h' \<and> strs h' a = Some (cblock f) \<and> a \<notin> str_addrs cs' \<and>
    cfg_identity (configuration h') \<noteq> Some a \<and> mdc_rep (release a h') t cs' \<and> frame t h cs (release a h') cs' \<and> pairs cs' = put_pid h (pairs cs)"
proof -
  obtain pid where b: "snprintf_at (replicate STR_BUFF NUL) 0 STR_BUFF (dec_int (getpid_val h)) = Some (int (length (dec (nat (getpid_val h)))), pid)"
    "cstr pid = Some (dec (nat (getpid_val h)))" "c_string (dec (nat (getpid_val h)))" using pid_string [OF assms(2,3)] by blast
  note r = read_env_ok [OF assms(1,4,5)]
  let ?h1 = "new_block (cblock f) h"
  obtain h2 cs2 where u: "update_mdclog_array t (cblock ''PID'') pid ?h1 = Some (0, h2)" "lib_rep h2 t i cs2" "frame t ?h1 cs h2 cs2"
    "pairs cs2 = put_spec ''PID'' (escape_str (dec (nat (getpid_val h)))) (rm_spec ''PID'' (pairs cs))"
    using update_mdclog_array_ok [OF r(2) plain_keys(2) b(3,2)] by blast
  have rep: "mdc_rep h t cs" "mdc_rep h2 t cs2" using assms(1) u(2) by (simp_all add: lib_rep_def)
  note f = frame_temp [OF rep u(3)]
  have "format_rest t mon h = init_level (mon \<noteq> 0) 0 (Some (brk h)) h2" using b(1) r(1) u(1) by (simp add: format_rest_def)
  moreover have "pairs cs2 = put_pid h (pairs cs)" unfolding u(4) put_pid_def dec_plain(1) ..
  moreover have "cfg_identity (configuration h2) \<noteq> Some (brk h)"
    using frame_lib(1) [OF u(3)] mdc_get_foreign(2) [OF assms(1)] mdc_rep_fresh [OF rep(1)] by (simp add: new_block_def)
  moreover have "heap_only h h2" using heap_only_frame [OF f(5)] by (cases h2) (simp add: heap_only_def release_def)
  ultimately show ?thesis using u(2) f(1,2,4,5) by (intro exI [of _ h2] exI [of _ cs2] exI [of _ "brk h"]) simp
qed

lemma format_initialize_file:
  assumes "lib_rep h t i cs" "log_format_init_done (configuration h) = 0" "env_strings h" "0 \<le> getpid_val h" "getpid_val h \<le> int INT_MAX"
    "getenv_val h LOG_FILE_CONFIG_MAP = Some b" "cstr b = Some f" 
  shows "\<exists>h' cs' a. mdclog_format_initialize t mon h = init_level (mon \<noteq> 0) 0 (Some a) h' \<and> lib_rep h' t i cs' \<and> heap_only h h' \<and>
    map_of (pairs cs') = init_context h (map_of (pairs cs)) \<and> strs h' a = Some (cblock f) \<and> a \<notin> str_addrs cs' \<and>
    cfg_identity (configuration h') \<noteq> Some a \<and> strs h |` (- str_addrs cs) = (strs h')(a := None) |` (- str_addrs cs')"
proof -
  obtain h1 cs1 where l: "mdclog_format_initialize t mon h = format_rest t mon h1" "lib_rep h1 t i cs1" "frame t h cs h1 cs1"
    "put_pid h1 (pairs cs1) = init_pairs h (pairs cs)" "0 \<le> getpid_val h1" "getpid_val h1 \<le> int INT_MAX" "getenv_val h1 LOG_FILE_CONFIG_MAP = Some b"
    using fields_rest [OF assms(1-5)] assms(6) by fastforce
  obtain h' cs' a where g: "format_rest t mon h1 = init_level (mon \<noteq> 0) 0 (Some a) h'" "lib_rep h' t i cs'" "strs h' a = Some (cblock f)" "a \<notin> str_addrs cs'"
    "cfg_identity (configuration h') \<noteq> Some a" "frame t h1 cs1 (release a h') cs'" "pairs cs' = put_pid h1 (pairs cs1)"
    using format_rest_file [OF l(2,5-7) assms(7)] by blast
  have F: "frame t h cs (release a h') cs'" by (rule frame_trans [OF l(3) g(6)])
  have "heap_only h h'" using heap_only_frame [OF F] by (cases h') (simp add: heap_only_def release_def)
  moreover have "map_of (pairs cs') = init_context h (map_of (pairs cs))" unfolding g(7) l(4) by (rule map_of_init_pairs)
  moreover have "strs h |` (- str_addrs cs) = (strs h')(a := None) |` (- str_addrs cs')" using F by (simp add: frame_def release_def)
  ultimately show ?thesis using l(1) g(1-5) by (intro exI [of _ h'] exI [of _ cs'] exI [of _ a]) simp
qed

text \<open>The configuration of the process: the level that the file names, if one is configured.\<close>

definition conf_rep :: "'a log_env_scheme \<Rightarrow> severity option \<Rightarrow> bool" where
  "conf_rep h conf \<longleftrightarrow> (case getenv_val h LOG_FILE_CONFIG_MAP of
      None \<Rightarrow> conf = None
    | Some b \<Rightarrow> (\<exists>f ls l v. cstr b = Some f \<and> files h f = Some (lines_text ls) \<and> list_all config_line ls \<and>
        find level_line ls = Some l \<and> line_value l = Some v \<and> conf = Some (level_of v)))"

text \<open>With a configuration file: the level is the one of the file, and a monitor gets a copy of the
  file name in a block of its own. Nothing else of what the function allocates in between stays.\<close>

lemma format_rest_watch:
  assumes "lib_rep h t i cs" "0 \<le> getpid_val h" "getpid_val h \<le> int INT_MAX"
    "conf_rep h (Some sev)" "Option.bind (getenv_val h LOG_FILE_CONFIG_MAP) cstr = Some f"
  shows "\<exists>h' cs' n. (mon = 0 \<longrightarrow> format_rest t mon h = Some (0, h'\<lparr>brk := n, current_level := sev\<rparr>)) \<and>
    (mon \<noteq> 0 \<and> lstat_ret h f = 0 \<and> pthread_create_ret h = 0 \<longrightarrow> format_rest t mon h =
       Some (0, h'\<lparr>brk := Suc n, strs := (strs h')(n \<mapsto> cblock f), current_level := sev, monitors := monitors h @ [Some n]\<rparr>)) \<and>
    brk h' \<le> n \<and> mdc_rep h' t cs' \<and> frame t h cs h' cs' \<and> pairs cs' = put_pid h (pairs cs)"
proof -
  obtain b ls l v where c: "getenv_val h LOG_FILE_CONFIG_MAP = Some b" "cstr b = Some f" "files h f = Some (lines_text ls)" "list_all config_line ls"
    "find level_line ls = Some l" "line_value l = Some v" "sev = level_of v"
    using assms(4,5) by (auto simp: conf_rep_def Option.bind_eq_Some_conv)
  obtain h' cs' a where g: "format_rest t mon h = init_level (mon \<noteq> 0) 0 (Some a) h'" "lib_rep h' t i cs'" "heap_only h h'"
    "strs h' a = Some (cblock f)" "mdc_rep (release a h') t cs'" "frame t h cs (release a h') cs'" "pairs cs' = put_pid h (pairs cs)"
    using format_rest_file [OF assms(1-3) c(1,2), of mon] by auto
  note env = heap_onlyD [OF g(3)]
  have m: "malloc_ok h' x" "mdc_rep h' t cs'" for x using g(2) by (simp_all add: lib_rep_def env_ok_def)
  have fresh: "strs h' (brk h') = None" "strs h' (Suc (brk h')) = None" using mdc_repD(1) [OF m(2)] by (simp_all add: heap_wf_def)
  have p: "parse_lines (lines_text ls) = Some (Some (Some v))" using parse_lines_text [OF c(4), of "[]"] c(5,6) by simp
  have "config_line l" using c(4,5) by (auto simp: find_Some_iff list_all_iff)
  then have v: "NUL \<notin> set v" by (rule line_value_no_NUL [OF _ c(6)])
  have "files h' f = Some (lines_text ls)" using env c(3) by simp
  note level = level_from_file_found [OF this p v m(1) fresh(1)]
  have f: "NUL \<notin> set f" using cstr_SomeD [OF c(2)] by blast
  have an: "a \<noteq> Suc (brk h')" using fresh(2) g(4) by auto
  have watch: "enable_log_change_notify f (h'\<lparr>brk := Suc (brk h'), current_level := sev\<rparr>) =
      Some (0, h'\<lparr>brk := Suc (Suc (brk h')), current_level := sev, strs := (strs h')(Suc (brk h') \<mapsto> cblock f), monitors := monitors h @ [Some (Suc (brk h'))]\<rparr>)"
    if "lstat_ret h f = 0" "pthread_create_ret h = 0"
    using that env f m(1) by (simp add: enable_log_change_notify_def register_log_change_notify_def)
  have "init_level False 0 (Some a) h' = Some (0, (release a h')\<lparr>brk := Suc (brk h'), current_level := sev\<rparr>)"
    using f g(4) c(7) by (simp add: init_level_def str_at_def level release_def)
  moreover have "init_level True 0 (Some a) h' = Some (0, (release a h')\<lparr>brk := Suc (Suc (brk h')), strs := (strs (release a h'))(Suc (brk h') \<mapsto> cblock f),
      current_level := sev, monitors := monitors h @ [Some (Suc (brk h'))]\<rparr>)" if "lstat_ret h f = 0" "pthread_create_ret h = 0"
    using f g(4) an watch [OF that] c(7) by (simp add: init_level_def str_at_def level release_def fun_upd_twist)
  ultimately show ?thesis using g by (intro exI [of _ "release a h'"] exI [of _ cs'] exI [of _ "Suc (brk h')"]) (cases "mon = 0"; simp add: release_def)
qed

text \<open>Without a monitor the rest of the function works on the context of its thread and sets the
  level.\<close>

lemma format_rest_conf:
  assumes "lib_rep h t i cs" "0 \<le> getpid_val h" "getpid_val h \<le> int INT_MAX"
    "conf_rep h conf" "mon = 0 \<or> conf = None"
  shows "\<exists>h' cs' n. format_rest t mon h = Some (0, h'\<lparr>brk := n, current_level := case conf of None \<Rightarrow> current_level h | Some l \<Rightarrow> l\<rparr>) \<and>
    brk h' \<le> n \<and> mdc_rep h' t cs' \<and> frame t h cs h' cs' \<and> pairs cs' = put_pid h (pairs cs)"
proof (cases conf)
  case None
  then have "getenv_val h LOG_FILE_CONFIG_MAP = None" using assms(4) by (auto simp: conf_rep_def split: option.splits)
  then obtain h' cs' where f: "format_rest t mon h = Some (0, h')" "lib_rep h' t i cs'" "frame t h cs h' cs'" "pairs cs' = put_pid h (pairs cs)"
    using format_rest_no_file [OF assms(1-3)] by blast
  have "current_level h' = current_level h" using frame_lib [OF f(3)] by simp
  then have "h'\<lparr>brk := brk h', current_level := current_level h\<rparr> = h'" by simp
  then show ?thesis using f None by (intro exI [of _ h'] exI [of _ cs'] exI [of _ "brk h'"]) (simp add: lib_rep_def)
next
  case (Some sev)
  then obtain f where "Option.bind (getenv_val h LOG_FILE_CONFIG_MAP) cstr = Some f" using assms(4) by (auto simp: conf_rep_def split: option.splits)
  from format_rest_watch [OF assms(1-3) _ this, of sev mon] show ?thesis using assms(4,5) Some by auto
qed

section \<open>Samples\<close>

text \<open>An initialised library in a process with the id 42, one of the fields in its environment and a
  configuration file.\<close>

definition sample_file :: string where
  "sample_file = lines_text [''# c'', ''log-level: Debug'']"

definition sample_env :: log_env where
  "sample_env = \<lparr>strs = [2 \<mapsto> cblock ''k'', 3 \<mapsto> cblock ''v'', 4 \<mapsto> cblock ''me''], brk = 5, malloc_ok = \<lambda>a. True,
     garbage = \<lambda>a i. NUL, errno = 0,
     nodes = [1 \<mapsto> \<lparr>mdc_prev = None, mdc_next = None, mdc_key = Some 2, mdc_value = Some 3\<rparr>],
     lists = [0 \<mapsto> \<lparr>mdclist_head = Some 1\<rparr>], tls = [1 \<mapsto> 0],
     key_created = True, key_create_ec = 0, once_ec = 0, setspecific_ec = \<lambda>t. 0,
     current_level = MDCLOG_ERR, configuration = \<lparr>init_done = 1, log_format_init_done = 0, cfg_identity = Some 4\<rparr>,
     attrs = Map.empty, progname = cblock ''prog'', out = [], write_answers = \<lambda>n. WAccept PIPE_BUF, write_calls = 0,
     getenv_val = [''POD_NAME'' \<mapsto> cblock ''pod'', LOG_FILE_CONFIG_MAP \<mapsto> cblock ''/c/f''], files = [''/c/f'' \<mapsto> sample_file],
     lstat_ret = \<lambda>f. 0, getpid_val = 42, pthread_create_ret = 0, monitors = [], printed = []\<rparr>"

lemma sample_env_rep: "lib_rep sample_env 1 (Some ''me'') [sample_cell]"
proof -
  have "mdc_rep sample_env 1 [sample_cell]"
    by (auto simp: mdc_rep_def heap_wf_def sample_env_def sample_cell_def cells_ok_def cell_node_def)
  then show ?thesis by (simp add: lib_rep_def env_ok_def ident_owned_def sample_env_def sample_cell_def)
qed

lemma sample_env_strings: "env_strings sample_env"
  by (simp add: env_strings_def sample_env_def c_string_def SIZE_MOD_def cstr_def)

lemma sample_lines: "list_all config_line [''# c'', ''log-level: Debug'']" "find level_line [''# c'', ''log-level: Debug''] = Some ''log-level: Debug''"
  "line_value ''log-level: Debug'' = Some ''Debug''"
  by (simp_all add: config_line_def level_line_def after_key_def separator_def line_value_def)

section \<open>Properties\<close>

text \<open>The names of the levels.\<close>

definition level_table :: "(string \<times> severity) list" where
  "level_table = [(''err'', MDCLOG_ERR), (''warn'', MDCLOG_WARN), (''info'', MDCLOG_INFO), (''debug'', MDCLOG_DEBUG)]"

definition named_level :: "string \<Rightarrow> severity" where
  "named_level s = (case map_of level_table (map tolower s) of None \<Rightarrow> MDCLOG_ERR | Some l \<Rightarrow> l)"

lemma level_of_named: "level_of s = named_level s"
proof -
  have "map tolower ''ERR'' = ''err''" "map tolower ''WARN'' = ''warn''" "map tolower ''INFO'' = ''info''" "map tolower ''DEBUG'' = ''debug''"
    by (simp_all add: tolower_def char_of_def bit_0)
  then show ?thesis unfolding level_of_def strcasecmp_eq_def named_level_def level_table_def by simp
qed

text \<open>C18: the update of the level from a configuration file of newline-terminated lines that fit the
  line buffer. The first line whose first word is \<open>log-level\<close> decides: its second word names the
  level, in any capitalisation and \<open>MDCLOG_ERR\<close> when it is no name of a level, and no memory is
  leaked; when there is no second word the program crashes in \<open>strdup(NULL)\<close>. Without such a line
  the level is \<open>MDCLOG_ERR\<close> and a complaint is printed.\<close>

theorem config_file_level:
  assumes "files h f = Some (lines_text ls)" "list_all config_line ls" "malloc_ok h (brk h)" "strs h (brk h) = None"
  shows "case find level_line ls of
      None \<Rightarrow> \<exists>msg. level_from_file f h = Some (h\<lparr>printed := printed h @ [msg], current_level := MDCLOG_ERR\<rparr>)
    | Some l \<Rightarrow> (case line_value l of
        None \<Rightarrow> level_from_file f h = None
      | Some v \<Rightarrow> level_from_file f h = Some (h\<lparr>brk := Suc (brk h), current_level := named_level v\<rparr>))"
proof (cases "find level_line ls")
  case None
  then have "parse_lines (lines_text ls) = Some None" using parse_lines_text [OF assms(2), of "[]"] by simp
  then show ?thesis using None level_from_file_default [of h f] assms(1) by simp
next
  case (Some l)
  then have p: "parse_lines (lines_text ls) = Some (Some (line_value l))" using parse_lines_text [OF assms(2), of "[]"] by simp
  have "config_line l" using Some assms(2) by (auto simp: find_Some_iff list_all_iff)
  show ?thesis
  proof (cases "line_value l")
    case None
    then show ?thesis using Some p assms(1) by (simp add: level_from_file_def parse_file_def)
  next
    case v: (Some v)
    then show ?thesis using Some p level_from_file_found [OF assms(1) _ line_value_no_NUL assms(3,4)] \<open>config_line l\<close>
      by (simp add: level_of_named)
  qed
qed

theorem config_file_level_witness:
  "level_from_file ''/c/f'' sample_env = Some (sample_env\<lparr>brk := 6, current_level := MDCLOG_DEBUG\<rparr>)"
proof -
  have "files sample_env ''/c/f'' = Some (lines_text [''# c'', ''log-level: Debug''])" "malloc_ok sample_env (brk sample_env)"
    "strs sample_env (brk sample_env) = None" "brk sample_env = 5" by (simp_all add: sample_env_def sample_file_def)
  moreover have "named_level ''Debug'' = MDCLOG_DEBUG" by (simp add: named_level_def level_table_def tolower_def char_of_def bit_0)
  ultimately show ?thesis using config_file_level [of sample_env "''/c/f''", OF _ sample_lines(1)] sample_lines(2,3) by simp
qed

text \<open>C29: a file that ends in a line of blanks without a newline, such as an indented empty last line,
  crashes the program in \<open>strcmp(NULL, \<dots>)\<close>, unless the level was found before.\<close>

theorem blank_last_line_faults:
  assumes "files h f = Some (lines_text ls @ s)" "list_all config_line ls" "find level_line ls = None"
    "s \<noteq> []" "list_all separator s" "length s < STR_BUFF - 1"
  shows "level_from_file f h = None"
proof -
  have n: "NEWLINE \<notin> set s" "NUL \<notin> set s"
    using assms(5) separator_NEWLINE separator_NUL unfolding list_all_iff by blast+
  have "fgets_chars (STR_BUFF - 1) s = (s, [])" using fgets_rest [OF n(1) assms(6)] .
  moreover have "dropWhile separator s = []" using assms(5) by (simp add: list_all_iff)
  then have "strtok_at '': '' s = (None, [])" unfolding strtok_separator Let_def by (simp only: if_True refl)
  ultimately have "parse_lines s = None"
    unfolding parse_lines.simps [of s] takeWhile_no_NUL [OF n(2)] if_not_P [OF assms(4)] by (simp add: takeWhile_no_NUL [OF n(2)])
  then have "parse_lines (lines_text ls @ s) = None" using parse_lines_text [OF assms(2), of s] assms(3) by simp
  then show ?thesis using assms(1) by (simp add: level_from_file_def parse_file_def)
qed

theorem blank_last_line_faults_witness:
  "level_from_file ''f'' (sample_env\<lparr>files := [''f'' \<mapsto> ''  '']\<rparr>) = None"
  using blank_last_line_faults [of "sample_env\<lparr>files := [''f'' \<mapsto> ''  '']\<rparr>" "''f''" "[]" "''  ''"]
  by (simp add: lines_text_def separator_def)

text \<open>C22: \<open>mdclog_format_initialize\<close> without a configuration file. It returns 0; the context of the thread
  holds the five fields with the escaped values of the environment, empty where a variable is not
  set, and the process id, whatever it held under these keys before; the other entries, the
  identity and the level are as before, and the memory outside the context is too.\<close>

theorem format_initialize_context:
  assumes "lib_rep h t i cs" "log_format_init_done (configuration h) = 0" "env_strings h" "0 \<le> getpid_val h" "getpid_val h \<le> int INT_MAX"
    "getenv_val h LOG_FILE_CONFIG_MAP = None"
  shows "\<exists>h' cs'. mdclog_format_initialize t mon h = Some (0, h') \<and> lib_rep h' t i cs' \<and>
    (\<forall>k. map_of (pairs cs') k = (if k = ''PID'' then Some (dec (nat (getpid_val h)))
       else if k \<in> set LOGFIELDS then Some (escape_str (env_value h k)) else map_of (pairs cs) k)) \<and>
    current_level h' = current_level h \<and> monitors h' = monitors h \<and> strs h |` (- str_addrs cs) = strs h' |` (- str_addrs cs')"
proof -
  obtain h' cs' where f: "mdclog_format_initialize t mon h = Some (0, h')" "lib_rep h' t i cs'" "frame t h cs h' cs'"
    "pairs cs' = init_pairs h (pairs cs)" using format_initialize_no_file [OF assms] by blast
  moreover have "map_of (pairs cs') = init_context h (map_of (pairs cs))" by (simp add: f(4) map_of_init_pairs)
  ultimately show ?thesis using heap_onlyD(6,8) [OF heap_only_frame [OF f(3)]] 
    by (intro exI [of _ h'] exI [of _ cs']) (simp add: init_context_def frame_def)
qed

theorem format_initialize_context_witness:
  "\<exists>h' cs'. mdclog_format_initialize 1 0 (sample_env\<lparr>getenv_val := [''POD_NAME'' \<mapsto> cblock ''pod'']\<rparr>) = Some (0, h') \<and>
    lib_rep h' 1 (Some ''me'') cs' \<and> map_of (pairs cs') ''POD_NAME'' = Some ''pod'' \<and> map_of (pairs cs') ''HOST_NAME'' = Some [] \<and>
    map_of (pairs cs') ''k'' = Some ''v''"
proof -
  let ?h = "sample_env\<lparr>getenv_val := [''POD_NAME'' \<mapsto> cblock ''pod'']\<rparr>"
  have "lib_rep ?h 1 (Some ''me'') [sample_cell]" by (rule lib_rep_cong [OF sample_env_rep]) simp_all
  moreover have "log_format_init_done (configuration ?h) = 0" "env_strings ?h" "0 \<le> getpid_val ?h" "getpid_val ?h \<le> int INT_MAX"
    "getenv_val ?h LOG_FILE_CONFIG_MAP = None"
    by (simp_all add: sample_env_def env_strings_def c_string_def SIZE_MOD_def cstr_def INT_MAX_def)
  ultimately obtain h' cs' where w: "mdclog_format_initialize 1 0 ?h = Some (0, h')" "lib_rep h' 1 (Some ''me'') cs'"
    "\<forall>k. map_of (pairs cs') k = (if k = ''PID'' then Some (dec (nat (getpid_val ?h)))
       else if k \<in> set LOGFIELDS then Some (escape_str (env_value ?h k)) else map_of (pairs [sample_cell]) k)"
    using format_initialize_context [of ?h 1 "Some ''me''" "[sample_cell]" 0] by blast
  have "map_of (pairs cs') ''POD_NAME'' = Some ''pod''" "map_of (pairs cs') ''HOST_NAME'' = Some []" "map_of (pairs cs') ''k'' = Some ''v''"
    unfolding w(3) [rule_format] by (simp_all add: LOGFIELDS_def env_value_def cstr_def literal_simps sample_cell_def)
  then show ?thesis using w(1,2) by blast
qed

text \<open>C17: \<open>mdclog_format_initialize\<close> with a configuration file, whether it is to be watched or not. The
  context is filled as without a file and the level is the one the file names, even if the watch
  fails; the result is 0, -1 when the file cannot be examined, or the error of \<open>pthread_create\<close>. One
  monitor is started when it was asked for and nothing failed. A copy of the file name is all that
  stays allocated, and it does also when the thread was not created. The flag that marks the
  initialisation as done is still down: it is left to the new thread.\<close>

theorem format_initialize_monitor:
  assumes "lib_rep h t i cs" "log_format_init_done (configuration h) = 0" "env_strings h" "0 \<le> getpid_val h" "getpid_val h \<le> int INT_MAX"
    "getenv_val h LOG_FILE_CONFIG_MAP = Some (cblock f)" "NUL \<notin> set f" "files h f = Some (lines_text ls)" "list_all config_line ls"
    "find level_line ls = Some l" "line_value l = Some v"
  shows "\<exists>h' cs' m. mdclog_format_initialize t mon h = Some (watch_result (mon \<noteq> 0) f h, h') \<and> lib_rep h' t i cs' \<and>
    map_of (pairs cs') = init_context h (map_of (pairs cs)) \<and> current_level h' = named_level v \<and> watch_started (mon \<noteq> 0) f h h' m \<and>
    strs h |` (- str_addrs cs) = (strs h')(m := None) |` (- str_addrs cs') \<and> configuration h' = configuration h"
proof -
  have c: "cstr (cblock f) = Some f" using assms(7) by simp
  obtain h1 cs1 a where i: "mdclog_format_initialize t mon h = init_level (mon \<noteq> 0) 0 (Some a) h1" "lib_rep h1 t i cs1" "heap_only h h1"
    "map_of (pairs cs1) = init_context h (map_of (pairs cs))" "strs h1 a = Some (cblock f)" "a \<notin> str_addrs cs1"
    "cfg_identity (configuration h1) \<noteq> Some a" "strs h |` (- str_addrs cs) = (strs h1)(a := None) |` (- str_addrs cs1)"
    using format_initialize_file [OF assms(1-6) c, of mon] by blast
  note env = heap_onlyD [OF i(3)]
  have p: "parse_lines (lines_text ls) = Some (Some (Some v))" using parse_lines_text [OF assms(9), of "[]"] assms(10,11) by simp
  have "config_line l" using assms(9,10) by (auto simp: find_Some_iff list_all_iff)
  then have v: "NUL \<notin> set v" using line_value_no_NUL assms(11) by blast
  have "files h1 f = Some (lines_text ls)" using assms(8) env by simp
  from init_level_ok [OF i(2,5) assms(7) i(6,7) this p v, of "mon \<noteq> 0"]
  obtain h' m where l: "init_level (mon \<noteq> 0) 0 (Some a) h1 = Some (watch_result (mon \<noteq> 0) f h1, h')" "lib_rep h' t i cs1"
    "watch_started (mon \<noteq> 0) f h1 h' m" "(strs h')(m := None) = (strs h1)(a := None)" "current_level h' = level_of v"
    "configuration h' = configuration h1" by blast
  have "watch_result (mon \<noteq> 0) f h1 = watch_result (mon \<noteq> 0) f h" "watch_started (mon \<noteq> 0) f h h' m"
    using l(3) env by (simp_all add: watch_result_def watch_started_def)
  then show ?thesis using i l env level_of_named by (intro exI [of _ h'] exI [of _ cs1] exI [of _ m]) simp
qed

theorem format_initialize_monitor_witness:
  "\<exists>h' cs' m. mdclog_format_initialize 1 1 sample_env = Some (0, h') \<and> current_level h' = MDCLOG_DEBUG \<and> monitors h' = [Some m] \<and>
    strs h' m = Some (cblock ''/c/f'')"
proof -
  have e: "log_format_init_done (configuration sample_env) = 0" "0 \<le> getpid_val sample_env" "getpid_val sample_env \<le> int INT_MAX"
    "getenv_val sample_env LOG_FILE_CONFIG_MAP = Some (cblock ''/c/f'')" "NUL \<notin> set ''/c/f''"
    "files sample_env ''/c/f'' = Some (lines_text [''# c'', ''log-level: Debug''])"
    "watch_result True ''/c/f'' sample_env = 0"
    by (simp_all add: sample_env_def sample_file_def INT_MAX_def watch_result_def)
  have "named_level ''Debug'' = MDCLOG_DEBUG" by (simp add: named_level_def level_table_def tolower_def char_of_def bit_0)
  moreover have "monitors h' = [Some m] \<and> strs h' m = Some (cblock ''/c/f'')" if "watch_started True ''/c/f'' sample_env h' m" for h' m
    using that by (simp add: watch_started_def sample_env_def)
  ultimately show ?thesis
    using format_initialize_monitor [OF sample_env_rep e(1) sample_env_strings e(2-6) sample_lines, of 1] e(7) by fastforce
qed

end
