(* ===== verification/Lib_Threads.thy ===== *)
theory Lib_Threads
  imports Log_Config_Correct
begin

text \<open>
  The library as all its threads see it: one identity, one context per thread in disjoint parts of
  the heap, and nothing else allocated but the blocks that other parts of the process hold. Each kind of step the API takes (initialisation, an
  operation on the context of one thread, a change outside the heap) has a lemma here that says what
  it does to this state; the steps of the API are put together from them.
\<close>

section \<open>Representation\<close>

definition lib_all :: "'a mdclog_scheme \<Rightarrow> string option \<Rightarrow> (thread \<Rightarrow> cell list) \<Rightarrow> bool" where
  "lib_all h i C \<longleftrightarrow> (\<forall>t. lib_raw h t i (C t)) \<and> (\<forall>t u. t \<noteq> u \<longrightarrow> apart h C t u)"

text \<open>Every live object belongs to a context, to the list of a thread, to the identity, or is one of the
  blocks \<open>X\<close> that other parts of the process hold; those are intact.\<close>

definition tidy :: "'a mdclog_scheme \<Rightarrow> (thread \<Rightarrow> cell list) \<Rightarrow> (addr \<rightharpoonup> block) \<Rightarrow> bool" where
  "tidy h C X \<longleftrightarrow> dom (strs h) \<subseteq> (\<Union>t. str_addrs (C t)) \<union> set_option (cfg_identity (configuration h)) \<union> dom X \<and>
     (\<forall>a b. X a = Some b \<longrightarrow> strs h a = Some b \<and> cfg_identity (configuration h) \<noteq> Some a \<and> (\<forall>t. a \<notin> str_addrs (C t))) \<and>
     dom (nodes h) \<subseteq> (\<Union>t. node_addrs (C t)) \<and> dom (lists h) \<subseteq> (\<Union>t. set_option (tls h t))"

lemma tidyD: "tidy h C X \<Longrightarrow> X a = Some b \<Longrightarrow> strs h a = Some b \<and> cfg_identity (configuration h) \<noteq> Some a \<and> a \<notin> str_addrs (C t)"
  by (simp add: tidy_def)

lemma lib_allD: "lib_all h i C \<Longrightarrow> lib_raw h t i (C t)" "lib_all h i C \<Longrightarrow> t \<noteq> u \<Longrightarrow> apart h C t u"
  by (auto simp: lib_all_def)

lemma lib_all_rep: "lib_all h i C \<Longrightarrow> key_created h \<Longrightarrow> init_done (configuration h) \<noteq> 0 \<Longrightarrow> lib_rep h t i (C t)"
  using lib_raw_rep lib_allD(1) by blast

lemma lib_all_all_rep: "lib_all h i C \<Longrightarrow> key_created h \<Longrightarrow> all_rep h C"
  using lib_raw_keyed(1,2) [OF lib_allD(1), of h i C] key_created_idem [of h] by (simp add: all_rep_def lib_all_def)

lemma lib_all_fresh:
  assumes "lib_all h i C" "tidy h C X" "brk h \<le> a" shows "strs h a = None \<and> a \<notin> dom X"
proof -
  have "mdc_rep (h\<lparr>key_created := True\<rparr>) 0 (C 0)" using lib_allD(1) [OF assms(1), of 0] by (simp add: lib_raw_def)
  from mdc_repD(1) [OF this] show ?thesis using tidyD [OF assms(2), of a] assms(3) by (auto simp: heap_wf_def)
qed

section \<open>Steps\<close>

lemma lib_all_cong:
  assumes "lib_all h i C" "strs h' = strs h" "nodes h' = nodes h" "lists h' = lists h" "tls h' = tls h" "brk h \<le> brk h'"
    "malloc_ok h' = malloc_ok h" "setspecific_ec h' = setspecific_ec h" "once_ec h' = once_ec h" "key_create_ec h' = key_create_ec h"
    "cfg_identity (configuration h') = cfg_identity (configuration h)"
  shows "lib_all h' i C" "tidy h C X \<Longrightarrow> tidy h' C X"
proof -
  have "lib_raw h' t i (C t)" for t
    using lib_allD(1) [OF assms(1), of t] mdc_rep_cong [of "h\<lparr>key_created := True\<rparr>" t "C t" "h'\<lparr>key_created := True\<rparr>"] assms(2-11)
    by (auto simp: lib_raw_def env_ok_def ident_owned_def split: option.splits)
  then show "lib_all h' i C" using assms(1,5) by (simp add: lib_all_def apart_def)
  show "tidy h C X \<Longrightarrow> tidy h' C X" using assms by (simp add: tidy_def)
qed

text \<open>An operation of one thread on its own context.\<close>

lemma lib_all_frame:
  assumes "lib_all h i C" "key_created h" "mdc_rep h' t cs'" "frame t h (C t) h' cs'"
  shows "lib_all h' i (C(t := cs'))"
proof -
  have all: "all_rep h' (C(t := cs'))" by (rule all_rep_step [OF lib_all_all_rep [OF assms(1,2)] assms(3,4)])
  have k: "key_created h'" "once_ec h' = once_ec h" "key_create_ec h' = key_create_ec h" using assms(2,4) by (simp_all add: frame_def)
  have "ident_owned h' i ((C(t := cs')) u)" for u
  proof (cases "cfg_identity (configuration h)")
    case None
    then show ?thesis using lib_allD(1) [OF assms(1), of t] frame_lib(1) [OF assms(4)] by (simp add: lib_raw_def ident_owned_def)
  next
    case (Some a)
    have own: "\<exists>s. i = Some s \<and> NUL \<notin> set s \<and> strs h a = Some (cblock s) \<and> a \<notin> str_addrs (C v)" for v
      using lib_allD(1) [OF assms(1), of v] Some by (simp add: lib_raw_def ident_owned_def)
    then obtain s where s: "i = Some s" "NUL \<notin> set s" "strs h a = Some (cblock s)" "a \<notin> str_addrs (C t)" by blast
    have apart: "a \<notin> str_addrs (C v)" for v using own [of v] by blast
    have "strs h |` (- str_addrs (C t)) = strs h' |` (- str_addrs cs')" using assms(4) by (simp add: frame_def)
    from outside_eqD [OF this s(4) s(3)] show ?thesis using s(1,2) apart [of u] Some frame_lib(1) [OF assms(4)] by (simp add: ident_owned_def)
  qed
  moreover have "mdc_rep (h'\<lparr>key_created := True\<rparr>) u ((C(t := cs')) u)" "env_ok u h'" for u
    using all key_created_idem [OF k(1)] by (simp_all add: all_rep_def)
  moreover have "once_ec h' = 0" "key_create_ec h' = 0" using lib_allD(1) [OF assms(1), of t] k by (simp_all add: lib_raw_def)
  ultimately show ?thesis using all by (auto simp: lib_all_def lib_raw_def all_rep_def)
qed

lemma outside_dom:
  assumes "m |` (- A t) = m' |` (- A')" "dom m \<subseteq> (\<Union>u. A u) \<union> B"
  shows "dom m' \<subseteq> (\<Union>u. (A(t := A')) u) \<union> B"
proof
  fix x assume x: "x \<in> dom m'"
  show "x \<in> (\<Union>u. (A(t := A')) u) \<union> B"
  proof (cases "x \<in> A'")
    case True
    then show ?thesis by (auto intro!: exI [of _ t])
  next
    case False
    then have "x \<in> dom m" "x \<notin> A t" using x fun_cong [OF assms(1), of x] by (auto simp: restrict_map_def split: if_splits)
    then show ?thesis using assms(2) by (auto simp: fun_upd_def)
  qed
qed

lemma tidy_frame:
  assumes "tidy h C X" "frame t h (C t) h' cs'" shows "tidy h' (C(t := cs')) X"
proof -
  have f: "strs h |` (- str_addrs (C t)) = strs h' |` (- str_addrs cs')" "nodes h |` (- node_addrs (C t)) = nodes h' |` (- node_addrs cs')"
    "lists h |` (- set_option (tls h t)) = lists h' |` (- set_option (tls h' t))" "\<And>u. u \<noteq> t \<Longrightarrow> tls h' u = tls h u"
    using assms(2) by (simp_all add: frame_def)
  have d: "dom (strs h) \<subseteq> (\<Union>t. str_addrs (C t)) \<union> (set_option (cfg_identity (configuration h)) \<union> dom X)"
    "dom (nodes h) \<subseteq> (\<Union>t. node_addrs (C t)) \<union> {}" "dom (lists h) \<subseteq> (\<Union>t. set_option (tls h t)) \<union> {}"
    using assms(1) by (simp_all add: tidy_def Un_assoc)
  have x: "strs h' a = Some b \<and> cfg_identity (configuration h') \<noteq> Some a \<and> (\<forall>u. a \<notin> str_addrs ((C(t := cs')) u))" if "X a = Some b" for a b
    using tidyD [OF assms(1) that] outside_eqD [OF f(1)] frame_lib(1) [OF assms(2)] by simp
  have e: "(\<lambda>u. str_addrs (C u))(t := str_addrs cs') = (\<lambda>u. str_addrs ((C(t := cs')) u))"
    "(\<lambda>u. node_addrs (C u))(t := node_addrs cs') = (\<lambda>u. node_addrs ((C(t := cs')) u))"
    "(\<lambda>u. set_option (tls h u))(t := set_option (tls h' t)) = (\<lambda>u. set_option (tls h' u))"
    using f(4) by (auto simp: fun_eq_iff)
  show ?thesis
    using outside_dom [OF f(1) d(1)] outside_dom [OF f(2) d(2)] outside_dom [OF f(3) d(3)] frame_lib(1) [OF assms(2)]
    x unfolding e by (simp add: tidy_def Un_assoc)
qed

text \<open>An initialisation that replaces the identity: it is shown for each thread on its own, and what
  it does to the heap is the same for all.\<close>

lemma lib_all_init:
  assumes "lib_all h i C" "tidy h C X" "\<And>t. lib_rep h' t (Some s) (C t)" "same_lib h h'" "cfg_identity (configuration h') = Some a"
    "strs h' = (strs h |` (- set_option (cfg_identity (configuration h))))(a \<mapsto> b) \<or>
     strs h' = strs h |` (- set_option (cfg_identity (configuration h)))" "a \<notin> dom X"
  shows "lib_all h' (Some s) C" "tidy h' C X"
proof -
  have e: "once_ec h' = 0" "key_create_ec h' = 0" "tls h' = tls h" "nodes h' = nodes h" "lists h' = lists h"
    using lib_allD(1) [OF assms(1), of 0] assms(4) by (simp_all add: lib_raw_def same_lib_def)
  have "lib_raw h' t (Some s) (C t)" for t using lib_rep_raw [OF assms(3) e(1,2)] .
  then show "lib_all h' (Some s) C" using assms(1) e(3) by (simp add: lib_all_def apart_def)
  have d: "dom (strs h') \<subseteq> (dom (strs h) - set_option (cfg_identity (configuration h))) \<union> {a}"
    using assms(6) by (auto simp: restrict_map_def split: if_splits)
  have x: "strs h' c = Some d \<and> cfg_identity (configuration h') \<noteq> Some c" if "X c = Some d" for c d
    using tidyD [OF assms(2) that] that assms(5-7) by (auto simp: restrict_map_def)
  have "dom (strs h) \<subseteq> (\<Union>t. str_addrs (C t)) \<union> set_option (cfg_identity (configuration h)) \<union> dom X" using assms(2) by (simp add: tidy_def)
  with d have "dom (strs h') \<subseteq> (\<Union>t. str_addrs (C t)) \<union> set_option (cfg_identity (configuration h')) \<union> dom X"
    unfolding assms(5) option.set by blast
  then show "tidy h' C X" using assms(2) x e by (simp add: tidy_def)
qed

lemma init_unnamed_all:
  assumes "lib_all h i C" "tidy h C X" "init_done (configuration h) = 0" "cstr (progname h) = Some pn" "2 * length pn + 1 < SIZE_MOD"
    "length pn \<le> INT_MAX" "attr_ident attr h = Some None"
  shows "\<exists>h'. init_library attr h = Some h' \<and> lib_all h' (Some (escape_str pn)) C \<and> tidy h' C X \<and> key_created h' \<and>
    init_done (configuration h') \<noteq> 0 \<and> same_lib h h' \<and> attrs h' = attrs h"
proof -
  note init = init_library_unnamed [OF lib_allD(1) [OF assms(1)] assms(3-7)]
  obtain h' a where h': "init_library attr h = Some h'" "same_lib h h'" "attrs h' = attrs h" "cfg_identity (configuration h') = Some a"
    "strs h' = (strs h |` (- set_option (cfg_identity (configuration h))))(a \<mapsto> cblock (escape_str pn))" "strs h a = None"
    using init by blast
  have r: "lib_rep h' t (Some (escape_str pn)) (C t)" for t using init [of t] h'(1) by auto
  have "key_created h'" "init_done (configuration h') \<noteq> 0" using r [of 0] by (auto simp: lib_rep_def dest: mdc_repD(2))
  moreover have "a \<notin> dom X" using tidyD [OF assms(2), of a] h'(6) by auto
  ultimately show ?thesis using h' lib_all_init [OF assms(1,2) r h'(2,4)] by blast
qed

text \<open>A change of the other blocks: some are new, some are written, some are freed.\<close>

lemma lib_all_blocks:
  assumes "lib_all h i C" "tidy h C X" "strs h' = (strs h |` (- dom X)) ++ X'" "\<forall>a \<in> dom X'. a \<in> dom X \<or> brk h \<le> a" "\<forall>a \<in> dom X'. a < brk h'"
    "brk h \<le> brk h'" "nodes h' = nodes h" "lists h' = lists h" "tls h' = tls h" "malloc_ok h' = malloc_ok h"
    "setspecific_ec h' = setspecific_ec h" "once_ec h' = once_ec h" "key_create_ec h' = key_create_ec h"
    "cfg_identity (configuration h') = cfg_identity (configuration h)"
  shows "lib_all h' i C" "tidy h' C X'"
proof -
  have rep: "mdc_rep (h\<lparr>key_created := True\<rparr>) t (C t)" for t using lib_allD(1) [OF assms(1), of t] by (simp add: lib_raw_def)
  have wf: "heap_wf h" using mdc_repD(1) [OF rep] by (simp add: heap_wf_def)
  have ctx: "a \<notin> dom X" "a \<notin> dom X'" if "a \<in> str_addrs (C t)" for a t
  proof -
    show x: "a \<notin> dom X" using tidyD [OF assms(2), of a _ t] that by auto
    then show "a \<notin> dom X'" using mdc_rep_below(2) [OF rep [of t], of a] that assms(4) by auto
  qed
  have ident: "a \<notin> dom X" "a \<notin> dom X'" if "cfg_identity (configuration h) = Some a" for a
  proof -
    show x: "a \<notin> dom X" using tidyD [OF assms(2), of a] that by auto
    have "strs h a \<noteq> None" using lib_allD(1) [OF assms(1), of 0] that by (auto simp: lib_raw_def ident_owned_def)
    then have "a < brk h" using wf by (auto simp: heap_wf_def not_le [symmetric])
    then show "a \<notin> dom X'" using assms(4) x by auto
  qed
  have S: "strs h' a = strs h a" if "a \<notin> dom X" "a \<notin> dom X'" for a using that assms(3) by (simp add: map_add_dom_app_simps)
  have "strs h' a = None" if "brk h' \<le> a" for a
  proof -
    have "a \<notin> dom X'" "strs h a = None" using that wf assms(6) bspec [OF assms(5), of a] by (auto simp: heap_wf_def)
    then show ?thesis using assms(3) by (simp add: map_add_dom_app_simps restrict_map_def)
  qed
  then have "heap_wf h'" using wf assms(6-8) by (simp add: heap_wf_def)
  moreover have "seg (nodes h') (strs h') None (C t) None" for t
    using mdc_repD(4) [OF rep [of t]] seg_cong [of "C t" "nodes h'" "nodes h" "strs h'" "strs h"] S ctx assms(7) by simp
  ultimately have "mdc_rep (h'\<lparr>key_created := True\<rparr>) t (C t)" for t
    using rep [of t] assms(8,9) by (auto simp: mdc_rep_def heap_wf_def split: option.splits)
  moreover have "ident_owned h' i (C t)" for t
    using lib_allD(1) [OF assms(1), of t] assms(14) S ident by (auto simp: lib_raw_def ident_owned_def split: option.splits)
  ultimately have "lib_raw h' t i (C t)" for t
    using lib_allD(1) [OF assms(1), of t] assms(10-13) by (simp add: lib_raw_def env_ok_def)
  then show "lib_all h' i C" using assms(1,9) by (simp add: lib_all_def apart_def)
  have "dom (strs h') = (dom (strs h) - dom X) \<union> dom X'" using assms(3) by auto
  then have "dom (strs h') \<subseteq> (\<Union>t. str_addrs (C t)) \<union> set_option (cfg_identity (configuration h')) \<union> dom X'"
    using assms(2,14) by (auto simp: tidy_def)
  moreover have "strs h' a = Some b \<and> cfg_identity (configuration h') \<noteq> Some a \<and> (\<forall>t. a \<notin> str_addrs (C t))" if "X' a = Some b" for a b
  proof -
    have "a \<in> dom X'" using that by blast
    then show ?thesis using that assms(3,14) ctx(2) [of a] ident(2) [of a] by auto
  qed
  ultimately show "tidy h' C X'" using assms(2,7-9) by (simp add: tidy_def)
qed

text \<open>The other blocks of a tidy heap, extended and cut down.\<close>

lemma tidy_split: "tidy h C X \<Longrightarrow> strs h = (strs h |` (- dom X)) ++ X"
  using tidyD [of h C X] by (auto simp: fun_eq_iff map_add_def restrict_map_def split: option.splits)

lemma tidy_add: "tidy h C X \<Longrightarrow> strs h ++ Y = (strs h |` (- dom X)) ++ (X ++ Y)"
  using tidy_split [of h C X] by (metis map_add_assoc)

lemma tidy_cut: "tidy h C X \<Longrightarrow> A \<subseteq> dom X \<Longrightarrow> strs h |` (- A) = (strs h |` (- dom X)) ++ (X |` (- A))"
  using tidyD [of h C X] by (auto simp: fun_eq_iff map_add_def restrict_map_def split: option.splits)

lemma tidy_below: "lib_all h i C \<Longrightarrow> tidy h C X \<Longrightarrow> a \<in> dom X \<Longrightarrow> a < brk h"
  using lib_all_fresh [of h i C X a] by (auto simp: not_le [symmetric])

text \<open>A new block that is not part of the library, and one that is given back.\<close>

lemma lib_all_new_block:
  assumes "lib_all h i C" "tidy h C X" "strs h' = (strs h)(m \<mapsto> b)" "brk h \<le> m" "m < brk h'" "nodes h' = nodes h" "lists h' = lists h" "tls h' = tls h"
    "malloc_ok h' = malloc_ok h" "setspecific_ec h' = setspecific_ec h" "once_ec h' = once_ec h" "key_create_ec h' = key_create_ec h"
    "cfg_identity (configuration h') = cfg_identity (configuration h)"
  shows "lib_all h' i C" "tidy h' C (X(m \<mapsto> b))"
proof -
  have S: "strs h' = (strs h |` (- dom X)) ++ (X(m \<mapsto> b))" using tidy_add [OF assms(2), of "[m \<mapsto> b]"] assms(3) by simp
  have "\<forall>a \<in> dom (X(m \<mapsto> b)). a \<in> dom X \<or> brk h \<le> a" "\<forall>a \<in> dom (X(m \<mapsto> b)). a < brk h'" "brk h \<le> brk h'"
    using tidy_below [OF assms(1,2)] assms(4,5) by fastforce+
  then show "lib_all h' i C" "tidy h' C (X(m \<mapsto> b))" by (rule lib_all_blocks [OF assms(1,2) S]; use assms(6-13) in simp)+
qed

lemma lib_all_release:
  assumes "lib_all h i C" "tidy h C (X(m \<mapsto> b))" "m \<notin> dom X"
  shows "free_block (Some m) h = Some (release m h)" "lib_all (release m h) i C" "tidy (release m h) C X"
proof -
  show "free_block (Some m) h = Some (release m h)" using tidyD [OF assms(2), of m b] by (auto simp: release_def)
  have "(X(m \<mapsto> b)) |` (- {m}) = X" using assms(3) by (auto simp: fun_eq_iff restrict_map_def domIff)
  moreover have "strs (release m h) = strs h |` (- {m})" by (auto simp: release_def restrict_map_def)
  ultimately have S: "strs (release m h) = (strs h |` (- dom (X(m \<mapsto> b)))) ++ X" using tidy_cut [OF assms(2), of "{m}"] by simp
  have "\<forall>a \<in> dom X. a \<in> dom (X(m \<mapsto> b)) \<or> brk h \<le> a" "\<forall>a \<in> dom X. a < brk (release m h)"
    using tidy_below [OF assms(1,2)] by (auto simp: release_def)
  then show "lib_all (release m h) i C" "tidy (release m h) C X" by (rule lib_all_blocks [OF assms(1,2) S]; simp add: release_def)+
qed

end
