(* ===== verification/Log_Monitor.thy ===== *)
theory Log_Monitor
  imports Log_Config_Correct
begin

text \<open>
  The set-up and the clean-up of the thread that watches the configuration file: the names it works
  with, and what it leaves behind. Its loop is part of \<open>Process\<close>.
\<close>

section \<open>The names of the directory and the file\<close>

lemma split_name_path: "CHR ''/'' \<notin> set base \<Longrightarrow> split_name (dir @ CHR ''/'' # base) = (dir, Some base)"
proof -
  assume "CHR ''/'' \<notin> set base"
  then have "dropWhile (\<lambda>c. c \<noteq> CHR ''/'') (rev base @ CHR ''/'' # rev dir) = CHR ''/'' # rev dir"
    "takeWhile (\<lambda>c. c \<noteq> CHR ''/'') (rev base @ CHR ''/'' # rev dir) = rev base"
    by (subst dropWhile_append2 takeWhile_append2; auto)+
  then show ?thesis by (simp add: split_name_def)
qed

lemma cut_at: "NUL \<notin> set dir \<Longrightarrow> cstr ((cblock (dir @ c # rest))[length dir := NUL]) = Some dir"
  by (simp add: list_update_append)

text \<open>C31: the set-up of the monitor for a file in a directory: it watches the directory, and raises the
  flag exactly when \<open>inotify\<close> gave it both descriptors. When the loop has ended it releases the two
  names it made, but never the copy of the file name it was started with: each monitor leaks it.\<close>

theorem monitor_leaks_name:
  assumes "strs h a = Some (cblock (dir @ CHR ''/'' # base))" "NUL \<notin> set dir" "NUL \<notin> set base" "CHR ''/'' \<notin> set base"
    "malloc_ok h (brk h)" "malloc_ok h (Suc (brk h))" "strs h (brk h) = None" "strs h (Suc (brk h)) = None"
  shows "\<exists>d b h1. monitor_start (Some a) ifd wfd h = Some (ifd \<ge> 0 \<and> wfd \<ge> 0, Some d, Some b, h1) \<and>
    str_at (Some d) h1 = Some dir \<and> str_at (Some b) h1 = Some base \<and>
    log_format_init_done (configuration h1) = (if ifd \<ge> 0 \<and> wfd \<ge> 0 then 1 else log_format_init_done (configuration h)) \<and>
    (\<exists>h2. monitor_finish (Some d) (Some b) h1 = Some h2 \<and> strs h2 = strs h)"
proof -
  let ?s = "dir @ CHR ''/'' # base" and ?d = "brk h" and ?b = "Suc (brk h)"
  have c: "cstr (cblock ?s) = Some ?s" "cstr (cblock base) = Some base"
    using assms(2,3) cstr_append_NUL [of ?s "[]"] by auto
  define h1 where "h1 = h\<lparr>brk := Suc ?b, strs := (strs h)(?d \<mapsto> (cblock ?s)[length dir := NUL], ?b \<mapsto> cblock base)\<rparr>"
  define h2 where "h2 = (if ifd \<ge> 0 \<and> wfd \<ge> 0 then set_log_format_init_done 1 h1 else h1)"
  have start: "monitor_start (Some a) ifd wfd h = Some (ifd \<ge> 0 \<and> wfd \<ge> 0, Some ?d, Some ?b, h2)"
    using assms(1,5,6) c split_name_path [OF assms(4), of dir]
    by (simp add: monitor_start_def str_at_def store_block_def h1_def h2_def)
  have S: "strs h2 = (strs h)(?d \<mapsto> (cblock ?s)[length dir := NUL], ?b \<mapsto> cblock base)"
    by (simp add: h2_def h1_def set_log_format_init_done_def)
  have flag: "log_format_init_done (configuration h2) = (if ifd \<ge> 0 \<and> wfd \<ge> 0 then 1 else log_format_init_done (configuration h))"
    by (simp add: h2_def h1_def set_log_format_init_done_def)
  have "\<exists>h3. monitor_finish (Some ?d) (Some ?b) h2 = Some h3 \<and> strs h3 = (strs h2)(?b := None, ?d := None)"
    using S by (simp add: monitor_finish_def)
  moreover have "(strs h2)(?b := None, ?d := None) = strs h" using assms(7,8) unfolding S by (auto simp: fun_eq_iff)
  ultimately have "\<exists>h3. monitor_finish (Some ?d) (Some ?b) h2 = Some h3 \<and> strs h3 = strs h" by simp
  moreover have "str_at (Some ?d) h2 = Some dir" "str_at (Some ?b) h2 = Some base"
    using cut_at [OF assms(2)] c(2) by (simp_all add: str_at_def S)
  ultimately show ?thesis using start flag by blast
qed

theorem monitor_leaks_name_witness:
  "\<exists>d b h1 h2. monitor_start (Some 9) 3 1 (sample_env\<lparr>strs := [9 \<mapsto> cblock ''/c/f''], brk := 10\<rparr>) = Some (True, Some d, Some b, h1) \<and>
    str_at (Some d) h1 = Some ''/c'' \<and> log_format_init_done (configuration h1) = 1 \<and>
    monitor_finish (Some d) (Some b) h1 = Some h2 \<and> strs h2 9 = Some (cblock ''/c/f'')"
proof -
  let ?h = "sample_env\<lparr>strs := [9 \<mapsto> cblock ''/c/f''], brk := 10\<rparr>"
  have "strs ?h 9 = Some (cblock (''/c'' @ CHR ''/'' # ''f''))" "malloc_ok ?h (brk ?h)" "malloc_ok ?h (Suc (brk ?h))"
    "strs ?h (brk ?h) = None" "strs ?h (Suc (brk ?h)) = None" by (simp_all add: sample_env_def)
  from monitor_leaks_name [OF this(1) _ _ _ this(2-5), of 3 1] obtain d b h1 h2 where
    "monitor_start (Some 9) 3 1 ?h = Some (True, Some d, Some b, h1)" "str_at (Some d) h1 = Some ''/c''"
    "log_format_init_done (configuration h1) = 1" "monitor_finish (Some d) (Some b) h1 = Some h2" "strs h2 = strs ?h" by auto
  then show ?thesis by (intro exI [of _ d] exI [of _ b] exI [of _ h1] exI [of _ h2]) simp
qed

end
