(* ===== verification/Process.thy ===== *)
theory Process
  imports Lib_Threads Log_Monitor
begin

text \<open>
  The threads that watch the configuration file, as parts of the process: \<open>monitors\<close> are the arguments
  they were started with, \<open>watches\<close> says how far each one has got, and \<open>watch_turn\<close> is one turn of such a
  thread, the function \<open>monitor_loglevel_change_handler\<close> taken apart at the test of the loop. The
  blocks they hold are part of the heap of the library; what a turn does to them is shown here.
\<close>

section \<open>Turns of the monitor\<close>

datatype stage = Pending | Looping "addr option" "addr option" | Ended

record process = log_env +
  watches :: "nat \<Rightarrow> stage"

definition set_stage :: "nat \<Rightarrow> stage \<Rightarrow> 'a process_scheme \<Rightarrow> 'a process_scheme" where
  "set_stage i st h = h\<lparr>watches := (watches h)(i := st)\<rparr>"

text \<open>The first turn is everything in front of the loop; without the two descriptors of \<open>inotify\<close> the
  thread ends at once. After that each turn tests the flag and goes through the loop once, or leaves
  it and ends.\<close>

definition watch_turn :: "nat \<Rightarrow> int \<Rightarrow> int \<Rightarrow> monitor_event \<Rightarrow> 'a process_scheme \<Rightarrow> 'a process_scheme option" where
  "watch_turn i ifd wfd ev h =
     (if length (monitors h) \<le> i then Some h
      else (case watches h i of
          Pending \<Rightarrow> do {
            (run, dname, bname, h1) \<leftarrow> monitor_start (monitors h ! i) ifd wfd h;
            if run then Some (set_stage i (Looping dname bname) h1)
            else do { h2 \<leftarrow> monitor_finish dname bname h1; Some (set_stage i Ended h2) } }
        | Looping dname bname \<Rightarrow>
            if log_format_init_done (configuration h) \<noteq> 0
            then do { fileName \<leftarrow> str_at (monitors h ! i) h; monitor_round fileName ev h }
            else do { h1 \<leftarrow> monitor_finish dname bname h; Some (set_stage i Ended h1) }
        | Ended \<Rightarrow> Some h))"

section \<open>The blocks of the monitors\<close>

datatype watch = Starting | Watching | Over

text \<open>What thread \<open>i\<close> holds: the copy of the file name, for ever, and while it is in its loop the names
  of the directory and of the file.\<close>

definition owns :: "'a process_scheme \<Rightarrow> nat \<Rightarrow> addr set" where
  "owns h i = set_option (monitors h ! i) \<union> (case watches h i of Looping d b \<Rightarrow> set_option d \<union> set_option b | _ \<Rightarrow> {})"

definition stage_ok :: "(addr \<rightharpoonup> block) \<Rightarrow> string option \<Rightarrow> addr option \<Rightarrow> stage \<Rightarrow> watch \<Rightarrow> bool" where
  "stage_ok X name p st w \<longleftrightarrow> (\<exists>m f. p = Some m \<and> name = Some f \<and> X m = Some (cblock f)) \<and>
     (case st of
        Pending \<Rightarrow> w = Starting
      | Looping d b \<Rightarrow> w = Watching \<and> d \<noteq> None \<and> d \<noteq> p \<and> b \<noteq> p \<and> b \<noteq> d
      | Ended \<Rightarrow> w = Over)"

definition watch_rep :: "string option \<Rightarrow> 'a process_scheme \<Rightarrow> (addr \<rightharpoonup> block) \<Rightarrow> watch list \<Rightarrow> bool" where
  "watch_rep name h X ws \<longleftrightarrow> length ws = length (monitors h) \<and> (\<forall>i \<ge> length ws. watches h i = Pending) \<and>
     dom X = (\<Union>i < length ws. owns h i) \<and> (\<forall>i < length ws. \<forall>j < length ws. i \<noteq> j \<longrightarrow> owns h i \<inter> owns h j = {}) \<and>
     (\<forall>i < length ws. stage_ok X name (monitors h ! i) (watches h i) (ws ! i))"

lemma watch_rep_cong: "watch_rep name h X ws \<Longrightarrow> monitors h' = monitors h \<Longrightarrow> watches h' = watches h \<Longrightarrow> watch_rep name h' X ws"
  by (simp add: watch_rep_def owns_def cong: option.case_cong stage.case_cong)

lemma watch_rep_Nil: "watch_rep name h X [] \<longleftrightarrow> monitors h = [] \<and> (\<forall>i. watches h i = Pending) \<and> X = Map.empty"
  by (auto simp: watch_rep_def)

lemma watch_rep_name:
  assumes "watch_rep name h X ws" "i < length ws"
  shows "\<exists>m f. monitors h ! i = Some m \<and> name = Some f \<and> X m = Some (cblock f)"
  using assms by (auto simp: watch_rep_def stage_ok_def)

lemma stage_ok_cong: "stage_ok X name p st w \<Longrightarrow> (\<And>m. p = Some m \<Longrightarrow> X m \<noteq> None \<Longrightarrow> X' m = X m) \<Longrightarrow> stage_ok X' name p st w"
  by (auto simp: stage_ok_def)

text \<open>A new monitor.\<close>

lemma watch_rep_start:
  assumes "watch_rep (Some f) h X ws" "m \<notin> dom X" "monitors h' = monitors h @ [Some m]" "watches h' = watches h"
  shows "watch_rep (Some f) h' (X(m \<mapsto> cblock f)) (ws @ [Starting])"
proof -
  let ?n = "length ws"
  have r: "?n = length (monitors h)" "\<And>i. ?n \<le> i \<Longrightarrow> watches h i = Pending" "dom X = (\<Union>i < ?n. owns h i)"
    "\<And>i j. i < ?n \<Longrightarrow> j < ?n \<Longrightarrow> i \<noteq> j \<Longrightarrow> owns h i \<inter> owns h j = {}" "\<And>i. i < ?n \<Longrightarrow> stage_ok X (Some f) (monitors h ! i) (watches h i) (ws ! i)"
    using assms(1) by (simp_all add: watch_rep_def)
  have o: "owns h' i = owns h i" if "i < ?n" for i
    using that r(1) assms(3,4) by (simp add: owns_def nth_append)
  have n: "owns h' ?n = {m}" using r(1,2) assms(3,4) by (simp add: owns_def nth_append)
  have "m \<notin> owns h i" if "i < ?n" for i using assms(2) r(3) that by auto
  then have "owns h' i \<inter> owns h' j = {}" if "i < Suc ?n" "j < Suc ?n" "i \<noteq> j" for i j
    using that r(4) [of i j] o [of i] o [of j] n by (auto simp: less_Suc_eq)
  moreover have "stage_ok (X(m \<mapsto> cblock f)) (Some f) (monitors h' ! i) (watches h' i) ((ws @ [Starting]) ! i)" if "i < Suc ?n" for i
  proof (cases "i < ?n")
    case True
    have "stage_ok (X(m \<mapsto> cblock f)) (Some f) (monitors h ! i) (watches h i) (ws ! i)"
      by (rule stage_ok_cong [OF r(5) [OF True]]) (use assms(2) in auto)
    then show ?thesis using True r(1) assms(3,4) by (simp add: nth_append)
  next
    case False
    then have "i = ?n" using that by simp
    then show ?thesis using r(1,2) assms(3,4) by (simp add: stage_ok_def nth_append)
  qed
  moreover have "dom (X(m \<mapsto> cblock f)) = (\<Union>i < Suc ?n. owns h' i)" using r(3) o n by (auto simp: lessThan_Suc)
  ultimately show ?thesis using r(1,2) assms(3,4) by (simp add: watch_rep_def)
qed

text \<open>A new stage of monitor \<open>i\<close>: its name stays, and of the other blocks exactly the ones of the stage
  are there.\<close>

lemma watch_rep_stage:
  assumes "watch_rep name h X ws" "i < length ws" "monitors h' = monitors h" "watches h' = (watches h)(i := st)"
    "stage_ok X' name (monitors h ! i) st w"
    "\<And>j. j \<noteq> i \<Longrightarrow> j < length ws \<Longrightarrow> owns h' i \<inter> owns h j = {}"
    "\<And>a. a \<notin> owns h i \<Longrightarrow> a \<notin> owns h' i \<Longrightarrow> X' a = X a" "owns h' i \<subseteq> dom X'" "dom X' \<inter> owns h i \<subseteq> owns h' i"
  shows "watch_rep name h' X' (ws[i := w])"
proof -
  let ?n = "length ws"
  have r: "?n = length (monitors h)" "\<And>j. ?n \<le> j \<Longrightarrow> watches h j = Pending" "dom X = (\<Union>j < ?n. owns h j)"
    "\<And>j k. j < ?n \<Longrightarrow> k < ?n \<Longrightarrow> j \<noteq> k \<Longrightarrow> owns h j \<inter> owns h k = {}" "\<And>j. j < ?n \<Longrightarrow> stage_ok X name (monitors h ! j) (watches h j) (ws ! j)"
    using assms(1) by (simp_all add: watch_rep_def)
  have o: "owns h' j = owns h j" if "j \<noteq> i" for j using that assms(3,4) by (simp add: owns_def)
  have keep: "X' a = X a" if "a \<in> owns h j" "j < ?n" "j \<noteq> i" for a j
    using assms(7) [of a] r(4) [OF that(2) assms(2) that(3)] assms(6) [OF that(3,2)] that(1) by blast
  have "owns h' j \<inter> owns h' k = {}" if "j < ?n" "k < ?n" "j \<noteq> k" for j k
    using that r(4) [OF that] assms(6) [of j] assms(6) [of k] o [of j] o [of k] by (cases "j = i"; cases "k = i") auto
  moreover have "stage_ok X' name (monitors h' ! j) (watches h' j) (ws[i := w] ! j)" if "j < ?n" for j
  proof (cases "j = i")
    case False
    have "stage_ok X' name (monitors h ! j) (watches h j) (ws ! j)"
      by (rule stage_ok_cong [OF r(5) [OF that]]) (use keep [OF _ that False] in \<open>simp add: owns_def\<close>)
    then show ?thesis using False assms(3,4) by simp
  qed (use assms(2-5) in simp)
  moreover have "dom X' = (\<Union>j < ?n. owns h' j)"
  proof (intro equalityI subsetI)
    fix a assume a: "a \<in> dom X'"
    show "a \<in> (\<Union>j < ?n. owns h' j)"
    proof (cases "a \<in> owns h' i")
      case False
      then have "a \<notin> owns h i" using a assms(9) by blast
      then have "a \<in> dom X" using a False assms(7) [of a] by (simp add: domIff)
      then obtain j where "j < ?n" "a \<in> owns h j" using r(3) by blast
      moreover have "j \<noteq> i" using False a assms(9) calculation(2) by blast
      ultimately show ?thesis using o by blast
    qed (use assms(2) in blast)
  next
    fix a assume "a \<in> (\<Union>j < ?n. owns h' j)"
    then obtain j where j: "j < ?n" "a \<in> owns h' j" by blast
    show "a \<in> dom X'"
    proof (cases "j = i")
      case False
      then have "a \<in> owns h j" "a \<in> dom X" using j o r(3) by auto
      then show ?thesis using keep [OF _ j(1) False] by (simp add: domIff)
    qed (use j assms(8) in blast)
  qed
  ultimately show ?thesis using r(1,2) assms(2-4) by (simp add: watch_rep_def)
qed

section \<open>What a turn does to the heap\<close>

lemma monitor_start_ok:
  assumes "strs h m = Some (cblock f)" "NUL \<notin> set f" "\<And>a. malloc_ok h a"
  shows "\<exists>b Y n. monitor_start (Some m) ifd wfd h =
      Some (ifd \<ge> 0 \<and> wfd \<ge> 0, Some (brk h), b,
        if ifd \<ge> 0 \<and> wfd \<ge> 0 then set_log_format_init_done 1 (h\<lparr>brk := n, strs := strs h ++ Y\<rparr>) else h\<lparr>brk := n, strs := strs h ++ Y\<rparr>) \<and>
    dom Y = insert (brk h) (set_option b) \<and> set_option b \<subseteq> {Suc (brk h)} \<and> (\<forall>a \<in> dom Y. a < n) \<and> brk h < n"
proof -
  have c: "cstr (cblock f) = Some f" using assms(2) by simp
  obtain dir base where split: "split_name f = (dir, base)" by (cases "split_name f")
  show ?thesis
  proof (cases base)
    case None
    then have "monitor_start (Some m) ifd wfd h = Some (ifd \<ge> 0 \<and> wfd \<ge> 0, Some (brk h), None,
        if ifd \<ge> 0 \<and> wfd \<ge> 0 then set_log_format_init_done 1 (h\<lparr>brk := Suc (brk h), strs := strs h ++ [brk h \<mapsto> cblock f]\<rparr>)
        else h\<lparr>brk := Suc (brk h), strs := strs h ++ [brk h \<mapsto> cblock f]\<rparr>)"
      using assms(1,3) c split by (simp add: monitor_start_def str_at_def)
    then show ?thesis by (intro exI [of _ None] exI [of _ "[brk h \<mapsto> cblock f]"] exI [of _ "Suc (brk h)"]) simp
  next
    case (Some s)
    have "NUL \<notin> set s" using split Some assms(2) by (auto simp: split_name_def split: if_splits dest!: set_takeWhileD)
    then have s: "cstr (cblock s) = Some s" by simp
    let ?Y = "[brk h \<mapsto> (cblock f)[length dir := NUL], Suc (brk h) \<mapsto> cblock s]"
    have "monitor_start (Some m) ifd wfd h = Some (ifd \<ge> 0 \<and> wfd \<ge> 0, Some (brk h), Some (Suc (brk h)),
        if ifd \<ge> 0 \<and> wfd \<ge> 0 then set_log_format_init_done 1 (h\<lparr>brk := Suc (Suc (brk h)), strs := strs h ++ ?Y\<rparr>)
        else h\<lparr>brk := Suc (Suc (brk h)), strs := strs h ++ ?Y\<rparr>)"
      using assms(1,3) c s split Some by (simp add: monitor_start_def str_at_def store_block_def)
    then show ?thesis by (intro exI [of _ "Some (Suc (brk h))"] exI [of _ ?Y] exI [of _ "Suc (Suc (brk h))"]) auto
  qed
qed

lemma monitor_finish_ok:
  assumes "strs h d \<noteq> None" "set_option b \<subseteq> dom (strs h)" "b \<noteq> Some d"
  shows "monitor_finish (Some d) b h = Some (h\<lparr>strs := strs h |` (- insert d (set_option b))\<rparr>)"
proof (cases b)
  case None
  then show ?thesis using assms(1) by (auto simp: monitor_finish_def restrict_map_def fun_eq_iff intro!: arg_cong [of _ _ "\<lambda>S. h\<lparr>strs := S\<rparr>"])
next
  case (Some c)
  then have "(strs h)(c := None, d := None) = strs h |` (- insert d (set_option b))" by (auto simp: restrict_map_def)
  then show ?thesis using assms Some by (auto simp: monitor_finish_def)
qed

text \<open>One lemma per kind of turn: the library, the other blocks and the monitors are as they should be
  after it, and nothing else of the process has changed.\<close>

lemma owns_set_stage:
  "owns (set_stage i st h) i = set_option (monitors h ! i) \<union> (case st of Looping d b \<Rightarrow> set_option d \<union> set_option b | _ \<Rightarrow> {})"
  by (simp add: owns_def set_stage_def)

lemma watch_stage: "watch_rep name h X ws \<Longrightarrow> i < length ws \<Longrightarrow> stage_ok X name (monitors h ! i) (watches h i) (ws ! i)"
  by (simp add: watch_rep_def)

lemma watch_starting: "watch_rep name h X ws \<Longrightarrow> i < length ws \<Longrightarrow> ws ! i = Starting \<longleftrightarrow> watches h i = Pending"
  using watch_stage [of name h X ws i] by (cases "watches h i") (auto simp: stage_ok_def)

lemma watch_over: "watch_rep name h X ws \<Longrightarrow> i < length ws \<Longrightarrow> ws ! i = Over \<longleftrightarrow> watches h i = Ended"
  using watch_stage [of name h X ws i] by (cases "watches h i") (auto simp: stage_ok_def)

lemma watch_watching:
  assumes "watch_rep name h X ws" "i < length ws" "ws ! i = Watching"
  shows "\<exists>d b. watches h i = Looping (Some d) b \<and> Some d \<noteq> monitors h ! i \<and> b \<noteq> monitors h ! i \<and> b \<noteq> Some d"
  using watch_stage [OF assms(1,2)] assms(3) by (cases "watches h i") (auto simp: stage_ok_def)

definition proc_rep :: "string option \<Rightarrow> 'a process_scheme \<Rightarrow> string option \<Rightarrow> (thread \<Rightarrow> cell list) \<Rightarrow> (addr \<rightharpoonup> block) \<Rightarrow> watch list \<Rightarrow> bool" where
  "proc_rep name h s C X ws \<longleftrightarrow> lib_all h s C \<and> tidy h C X \<and> watch_rep name h X ws \<and> (\<forall>f. name = Some f \<longrightarrow> NUL \<notin> set f)"

lemma proc_repD:
  assumes "proc_rep name h s C X ws"
  shows "lib_all h s C" "tidy h C X" "watch_rep name h X ws" "name = Some f \<Longrightarrow> NUL \<notin> set f"
  using assms by (simp_all add: proc_rep_def)

lemma turn_enter:
  assumes rep: "proc_rep name h s C X ws" and i: "i < length ws" "ws ! i = Starting" and fd: "ifd \<ge> 0" "wfd \<ge> 0"
  shows "\<exists>st n S X'. brk h \<le> n \<and> watch_turn i ifd wfd ev h = Some (set_stage i st (set_log_format_init_done 1 (h\<lparr>brk := n, strs := S\<rparr>))) \<and>
    proc_rep name (set_stage i st (set_log_format_init_done 1 (h\<lparr>brk := n, strs := S\<rparr>))) s C X' (ws[i := Watching])"
proof -
  note A = proc_repD [OF rep]
  obtain m f where m: "monitors h ! i = Some m" "name = Some f" "X m = Some (cblock f)" using watch_rep_name [OF A(3) i(1)] by blast
  have l: "i < length (monitors h)" "watches h i = Pending" using A(3) i watch_starting [OF A(3) i(1)] by (simp_all add: watch_rep_def)
  have ok: "malloc_ok h a" for a using lib_allD(1) [OF A(1)] by (fastforce simp: lib_raw_def env_ok_def)
  have live: "strs h m = Some (cblock f)" using tidyD [OF A(2) m(3)] by blast
  obtain b Y n where st: "monitor_start (Some m) ifd wfd h = Some (True, Some (brk h), b, set_log_format_init_done 1 (h\<lparr>brk := n, strs := strs h ++ Y\<rparr>))"
    "dom Y = insert (brk h) (set_option b)" "set_option b \<subseteq> {Suc (brk h)}" "\<forall>a \<in> dom Y. a < n" "brk h < n"
    using monitor_start_ok [OF live A(4) [OF m(2)] ok, of ifd wfd] fd by auto
  let ?h = "set_log_format_init_done 1 (h\<lparr>brk := n, strs := strs h ++ Y\<rparr>)"
  let ?h' = "set_stage i (Looping (Some (brk h)) b) ?h"
  have Y: "brk h \<le> a \<and> a \<notin> dom X" if "a \<in> dom Y" for a using that st(2,3) lib_all_fresh [OF A(1,2), of a] by auto
  have turn: "watch_turn i ifd wfd ev h = Some ?h'" using l m(1) st(1) by (simp add: watch_turn_def)
  have X: "\<forall>a \<in> dom (X ++ Y). a \<in> dom X \<or> brk h \<le> a" "\<forall>a \<in> dom (X ++ Y). a < n"
  proof -
    show "\<forall>a \<in> dom (X ++ Y). a \<in> dom X \<or> brk h \<le> a" using Y by auto
    have "a < brk h" if "a \<in> dom X" for a using that lib_all_fresh [OF A(1,2), of a] by (auto simp: not_le [symmetric])
    then show "\<forall>a \<in> dom (X ++ Y). a < n" using st(4,5) by (metis UnE dom_map_add less_trans)
  qed
  have all: "lib_all ?h' s C" "tidy ?h' C (X ++ Y)"
    by (rule lib_all_blocks [OF A(1,2), of ?h' "X ++ Y"];
        use X st(5) tidy_add [OF A(2), of Y] in \<open>simp add: set_stage_def set_log_format_init_done_def\<close>)+
  have o: "owns h i = {m}" "owns ?h' i = insert m (dom Y)" using l(2) m(1) st(2) by (auto simp: owns_def set_stage_def set_log_format_init_done_def)
  have "m \<notin> dom Y" using Y [of m] m(3) by auto
  then have n: "m \<noteq> brk h" "b \<noteq> Some m" "b \<noteq> Some (brk h)" using st(2,3) by auto
  have X_Y: "(X ++ Y) a = X a" if "a \<notin> dom Y" for a using that by (simp add: map_add_dom_app_simps)
  have "watch_rep name ?h' (X ++ Y) (ws[i := Watching])"
  proof (rule watch_rep_stage [OF A(3) i(1)])
    show "stage_ok (X ++ Y) name (monitors h ! i) (Looping (Some (brk h)) b) Watching"
      using m n X_Y [OF \<open>m \<notin> dom Y\<close>] by (auto simp: stage_ok_def)
    show "owns ?h' i \<inter> owns h j = {}" if "j \<noteq> i" "j < length ws" for j
    proof -
      have "owns h j \<subseteq> dom X" "m \<notin> owns h j" using A(3) i(1) that o(1) by (auto simp: watch_rep_def)
      moreover have "dom Y \<inter> dom X = {}" using Y by blast
      ultimately show ?thesis unfolding o(2) by blast
    qed
  qed (use o m(3) X_Y in \<open>auto simp: set_stage_def set_log_format_init_done_def\<close>)
  then have "proc_rep name ?h' s C (X ++ Y) (ws[i := Watching])" using all A(4) by (simp add: proc_rep_def)
  then show ?thesis using turn st(5) by (metis less_imp_le)
qed

lemma turn_fails:
  assumes rep: "proc_rep name h s C X ws" and i: "i < length ws" "ws ! i = Starting" and fd: "\<not> (ifd \<ge> 0 \<and> wfd \<ge> 0)"
  shows "\<exists>n. brk h \<le> n \<and> watch_turn i ifd wfd ev h = Some (set_stage i Ended (h\<lparr>brk := n\<rparr>)) \<and>
    proc_rep name (set_stage i Ended (h\<lparr>brk := n\<rparr>)) s C X (ws[i := Over])"
proof -
  note A = proc_repD [OF rep]
  obtain m f where m: "monitors h ! i = Some m" "name = Some f" "X m = Some (cblock f)" using watch_rep_name [OF A(3) i(1)] by blast
  have l: "i < length (monitors h)" "watches h i = Pending" using A(3) i watch_starting [OF A(3) i(1)] by (simp_all add: watch_rep_def)
  have ok: "malloc_ok h a" for a using lib_allD(1) [OF A(1)] by (fastforce simp: lib_raw_def env_ok_def)
  have live: "strs h m = Some (cblock f)" using tidyD [OF A(2) m(3)] by blast
  obtain b Y n where st: "monitor_start (Some m) ifd wfd h = Some (False, Some (brk h), b, h\<lparr>brk := n, strs := strs h ++ Y\<rparr>)"
    "dom Y = insert (brk h) (set_option b)" "set_option b \<subseteq> {Suc (brk h)}" "brk h < n"
    using monitor_start_ok [OF live A(4) [OF m(2)] ok, of ifd wfd] fd by auto
  have Y: "strs h a = None" if "a \<in> dom Y" for a using that st(2,3) lib_all_fresh [OF A(1,2), of a] by auto
  then have "(strs h ++ Y) |` (- dom Y) = strs h" by (auto simp: fun_eq_iff restrict_map_def map_add_def split: option.splits)
  moreover have "(strs h ++ Y) (brk h) \<noteq> None" "set_option b \<subseteq> dom (strs h ++ Y)" "b \<noteq> Some (brk h)" using st(2,3) by (auto simp: dom_map_add)
  ultimately have "monitor_finish (Some (brk h)) b (h\<lparr>brk := n, strs := strs h ++ Y\<rparr>) = Some (h\<lparr>brk := n\<rparr>)"
    using monitor_finish_ok [of "h\<lparr>brk := n, strs := strs h ++ Y\<rparr>" "brk h" b] st(2) by simp
  then have turn: "watch_turn i ifd wfd ev h = Some (set_stage i Ended (h\<lparr>brk := n\<rparr>))" using l m(1) st(1) by (simp add: watch_turn_def)
  have "lib_all (set_stage i Ended (h\<lparr>brk := n\<rparr>)) s C" "tidy (set_stage i Ended (h\<lparr>brk := n\<rparr>)) C X"
    using lib_all_cong [OF A(1), of "set_stage i Ended (h\<lparr>brk := n\<rparr>)"] A(2) st(4) by (simp_all add: set_stage_def)
  moreover have "watch_rep name (set_stage i Ended (h\<lparr>brk := n\<rparr>)) X (ws[i := Over])"
    by (rule watch_rep_stage [OF A(3) i(1)]) (use A(3) i(1) m l(2) in \<open>auto simp: set_stage_def stage_ok_def owns_def watch_rep_def\<close>)
  ultimately show ?thesis using turn st(4) A(4) by (intro exI [of _ n]) (simp add: proc_rep_def)
qed

lemma turn_leaves:
  assumes rep: "proc_rep name h s C X ws" and i: "i < length ws" "ws ! i = Watching" and flag: "log_format_init_done (configuration h) = 0"
  shows "\<exists>S X'. watch_turn i ifd wfd ev h = Some (set_stage i Ended (h\<lparr>strs := S\<rparr>)) \<and> proc_rep name (set_stage i Ended (h\<lparr>strs := S\<rparr>)) s C X' (ws[i := Over])"
proof -
  note A = proc_repD [OF rep]
  obtain m f where m: "monitors h ! i = Some m" "name = Some f" "X m = Some (cblock f)" using watch_rep_name [OF A(3) i(1)] by blast
  obtain d b where w: "watches h i = Looping (Some d) b" "d \<noteq> m" "b \<noteq> Some m" "b \<noteq> Some d" using watch_watching [OF A(3) i] m(1) by auto
  let ?A = "insert d (set_option b)"
  let ?h' = "set_stage i Ended (h\<lparr>strs := strs h |` (- ?A)\<rparr>)"
  have l: "i < length (monitors h)" using A(3) i(1) by (simp add: watch_rep_def)
  have o: "owns h i = insert m ?A" "owns ?h' i = {m}" using m(1) w(1) by (auto simp: owns_def set_stage_def)
  have sub: "?A \<subseteq> dom X" using A(3) i(1) o(1) by (auto simp: watch_rep_def)
  then have "strs h d \<noteq> None" "set_option b \<subseteq> dom (strs h)" using tidyD [OF A(2)] by blast+
  then have turn: "watch_turn i ifd wfd ev h = Some ?h'" using monitor_finish_ok [of h d b] w(1,4) l flag by (simp add: watch_turn_def)
  have X: "\<forall>a \<in> dom (X |` (- ?A)). a \<in> dom X \<or> brk h \<le> a" "\<forall>a \<in> dom (X |` (- ?A)). a < brk h"
  proof -
    show "\<forall>a \<in> dom (X |` (- ?A)). a < brk h" using lib_all_fresh [OF A(1,2)] by (auto simp: not_le [symmetric])
  qed auto
  have "lib_all ?h' s C" "tidy ?h' C (X |` (- ?A))"
    by (rule lib_all_blocks [OF A(1,2), of ?h' "X |` (- ?A)"]; use X tidy_cut [OF A(2) sub] in \<open>simp add: set_stage_def\<close>)+
  moreover have "watch_rep name ?h' (X |` (- ?A)) (ws[i := Over])"
  proof (rule watch_rep_stage [OF A(3) i(1)])
    have "m \<notin> ?A" using w by auto
    then show "stage_ok (X |` (- ?A)) name (monitors h ! i) Ended Over" using m by (simp add: stage_ok_def)
    show "owns ?h' i \<subseteq> dom (X |` (- ?A))" using \<open>m \<notin> ?A\<close> m(3) unfolding o(2) by auto
    show "owns ?h' i \<inter> owns h j = {}" if "j \<noteq> i" "j < length ws" for j
      using A(3) that i(1) o unfolding watch_rep_def by blast
    show "(X |` (- ?A)) a = X a" if "a \<notin> owns h i" for a using that o(1) by (simp add: restrict_map_def)
  qed (use o in \<open>auto simp: set_stage_def\<close>)
  ultimately show ?thesis using turn A(4) by (intro exI [of _ "strs h |` (- ?A)"] exI [of _ "X |` (- ?A)"]) (simp add: proc_rep_def)
qed

lemma turn_round:
  assumes rep: "proc_rep name h s C X ws" and i: "i < length ws" "ws ! i = Watching" and flag: "log_format_init_done (configuration h) \<noteq> 0"
    and conf: "\<And>f. name = Some f \<Longrightarrow> files h f = Some content" "parse_lines content = Some (Some (Some v))" "NUL \<notin> set v"
  shows "watch_turn i ifd wfd ev h = Some (if ev = Event then h\<lparr>brk := Suc (brk h), current_level := level_of v\<rparr> else h)"
proof -
  note A = proc_repD [OF rep]
  obtain m f where m: "monitors h ! i = Some m" "name = Some f" "X m = Some (cblock f)" using watch_rep_name [OF A(3) i(1)] by blast
  obtain d b where w: "watches h i = Looping (Some d) b" using watch_watching [OF A(3) i] by blast
  have l: "i < length (monitors h)" using A(3) i(1) by (simp add: watch_rep_def)
  have "strs h m = Some (cblock f)" "NUL \<notin> set f" using tidyD [OF A(2) m(3)] A(4) [OF m(2)] by blast+
  then have "str_at (monitors h ! i) h = Some f" using m(1) by (simp add: str_at_def)
  moreover have "malloc_ok h (brk h)" using lib_allD(1) [OF A(1)] by (fastforce simp: lib_raw_def env_ok_def)
  then have "level_from_file f h = Some (h\<lparr>brk := Suc (brk h), current_level := level_of v\<rparr>)"
    using level_from_file_found [OF conf(1) [OF m(2)] conf(2,3)] lib_all_fresh [OF A(1,2), of "brk h"] by simp
  ultimately show ?thesis using l w flag by (cases ev) (simp_all add: watch_turn_def monitor_round_def)
qed

lemma turn_idle: "watch_rep name h X ws \<Longrightarrow> i < length ws \<longrightarrow> ws ! i = Over \<Longrightarrow> watch_turn i ifd wfd ev h = Some h"
  using watch_over [of name h X ws i] by (auto simp: watch_turn_def watch_rep_def not_le)

end
