(* ===== verification/Api.thy ===== *)
theory Api
  imports Process
begin

text \<open>
  The library from the outside. \<open>api_call\<close> is one call of a client: a function of \<open>mdclog.h\<close> with its
  result, or a fixed sequence of them where the header asks for one (the value \<open>mdclog_mdc_get\<close>
  returns is read and freed; the attributes are created, used and destroyed as in the example of
  the developer guide). What happens between the calls of the client is there too: the turns of the
  threads that watch the configuration file, and changes of that file. \<open>logger\<close> is what the client has
  to know of the library, and \<open>api_spec\<close> what each step does to it. The steps of the proof that the calls implement the specification are here,
  one lemma per call; \<open>Api_Refinement\<close> puts them together.
\<close>

section \<open>Calls\<close>

datatype api_op =
  Log thread severity string timeval
| SetLevel severity
| GetLevel
| MdcAdd thread "string option" "string option"
| MdcGet thread "string option"
| MdcRemove thread "string option"
| MdcClean thread
| Init
| Format thread int
| Setup thread string int
| ThreadExit thread
| LibClean
| Watch nat int int monitor_event
| FileChange "string list"

datatype api_res = Void | Ret int | Text "string option" | Lev severity

text \<open>The set-up of the developer guide: attributes with an identity, the initialisation with them, the
  fields of the environment, and the end of the attributes.\<close>

definition api_setup :: "thread \<Rightarrow> string \<Rightarrow> int \<Rightarrow> 'a process_scheme \<Rightarrow> (api_res \<times> 'a process_scheme) option" where
  "api_setup t s mon h = (case mdclog_attr_init h of
      (_, attr, h1) \<Rightarrow> do {
        (_, h2) \<leftarrow> mdclog_attr_set_ident attr (Some (cblock s)) h1;
        (_, h3) \<leftarrow> mdclog_init attr h2;
        (r, h4) \<leftarrow> mdclog_format_initialize t mon h3;
        h5 \<leftarrow> mdclog_attr_destroy attr h4;
        Some (Ret r, h5) })"

definition api_get :: "thread \<Rightarrow> string option \<Rightarrow> 'a process_scheme \<Rightarrow> (api_res \<times> 'a process_scheme) option" where
  "api_get t k h = do {
     (p, h1) \<leftarrow> mdclog_mdc_get t (map_option cblock k) h;
     (case p of
        None \<Rightarrow> Some (Text None, h1)
      | Some a \<Rightarrow> do { v \<leftarrow> str_at p h1; h2 \<leftarrow> free_block p h1; Some (Text (Some v), h2) }) }"

text \<open>The end of a thread: the value of the key is reset, and \<open>destroy_list\<close>, the destructor of the
  key, gets the old value if there is one.\<close>

definition thread_exit :: "thread \<Rightarrow> 'a process_scheme \<Rightarrow> 'a process_scheme option" where
  "thread_exit t h = (case tls h t of None \<Rightarrow> Some h | Some l \<Rightarrow> destroy_list t (Some l) (h\<lparr>tls := (tls h)(t := None)\<rparr>))"

text \<open>The name of the configuration file, and a new content for it.\<close>

definition conf_name :: "'a log_env_scheme \<Rightarrow> string option" where
  "conf_name h = Option.bind (getenv_val h LOG_FILE_CONFIG_MAP) cstr"

definition file_change :: "string list \<Rightarrow> 'a log_env_scheme \<Rightarrow> 'a log_env_scheme" where
  "file_change ls h = (case conf_name h of None \<Rightarrow> h | Some f \<Rightarrow> h\<lparr>files := (files h)(f \<mapsto> lines_text ls)\<rparr>)"

fun api_call :: "(int \<Rightarrow> int \<Rightarrow> bool) \<Rightarrow> block \<Rightarrow> api_op \<Rightarrow> 'a process_scheme \<Rightarrow> (api_res \<times> 'a process_scheme) option" where
  "api_call retry stack (Log t sev m tv) h = do { h1 \<leftarrow> mdclog_write retry t sev (Formatted m) tv stack h; Some (Void, h1) }"
| "api_call retry stack (SetLevel l) h = Some (Void, mdclog_level_set l h)"
| "api_call retry stack GetLevel h = Some (Lev (mdclog_level_get h), h)"
| "api_call retry stack (MdcAdd t k v) h = do { (r, h1) \<leftarrow> mdclog_mdc_add t (map_option cblock k) (map_option cblock v) h; Some (Ret r, h1) }"
| "api_call retry stack (MdcGet t k) h = api_get t k h"
| "api_call retry stack (MdcRemove t k) h = do { h1 \<leftarrow> mdclog_mdc_remove t (map_option cblock k) h; Some (Void, h1) }"
| "api_call retry stack (MdcClean t) h = do { h1 \<leftarrow> mdclog_mdc_clean t h; Some (Void, h1) }"
| "api_call retry stack Init h = do { (r, h1) \<leftarrow> mdclog_init None h; Some (Ret r, h1) }"
| "api_call retry stack (Format t mon) h = do { (r, h1) \<leftarrow> mdclog_format_initialize t mon h; Some (Ret r, h1) }"
| "api_call retry stack (Setup t s mon) h = api_setup t s mon h"
| "api_call retry stack (ThreadExit t) h = do { h1 \<leftarrow> thread_exit t h; Some (Void, h1) }"
| "api_call retry stack LibClean h = do { h1 \<leftarrow> mdclog_lib_clean h; Some (Void, h1) }"
| "api_call retry stack (Watch i ifd wfd ev) h = do { h1 \<leftarrow> watch_turn i ifd wfd ev h; Some (Void, h1) }"
| "api_call retry stack (FileChange ls) h = Some (Void, file_change ls h)"

section \<open>Specification\<close>

text \<open>\<open>a_used\<close> are the threads that hold a list of their own until they end, \<open>a_flag\<close> is what keeps the
  monitors running, \<open>a_conf\<close> the level that the configuration file names, if there is one, and
  \<open>a_watch\<close> the monitors that have been started.\<close>

record logger =
  a_init :: bool
  a_ident :: "string option"
  a_level :: severity
  a_ctx :: "thread \<Rightarrow> (string \<times> string) list"
  a_used :: "thread set"
  a_out :: "string list"
  a_flag :: bool
  a_conf :: "severity option"
  a_watch :: "watch list"

text \<open>The program name is the identity of a library that nobody has initialised.\<close>

definition started :: "string \<Rightarrow> logger \<Rightarrow> logger" where
  "started pn a = (if a_init a then a else a\<lparr>a_init := True, a_ident := Some (escape_str pn)\<rparr>)"

definition set_ctx :: "thread \<Rightarrow> (string \<times> string) list \<Rightarrow> logger \<Rightarrow> logger" where
  "set_ctx t ps a = a\<lparr>a_ctx := (a_ctx a)(t := ps), a_used := insert t (a_used a)\<rparr>"

definition touch :: "thread \<Rightarrow> logger \<Rightarrow> logger" where
  "touch t a = a\<lparr>a_used := insert t (a_used a)\<rparr>"

definition valid_ident :: "string \<Rightarrow> bool" where
  "valid_ident s \<longleftrightarrow> length s \<le> IDENTITY_MAX_LENGTH \<and> escape_str s = s"

definition configured :: "logger \<Rightarrow> severity" where
  "configured a = (case a_conf a of None \<Rightarrow> a_level a | Some l \<Rightarrow> l)"

definition file_level :: "string list \<Rightarrow> severity option" where
  "file_level ls = Option.bind (find level_line ls) (\<lambda>l. map_option level_of (line_value l))"

text \<open>A monitor raises the flag when it starts, takes the level from the file at every event as long as
  the flag is up, and is over when it finds the flag down.\<close>

definition watch_spec :: "nat \<Rightarrow> bool \<Rightarrow> monitor_event \<Rightarrow> logger \<Rightarrow> logger" where
  "watch_spec i ok ev a = (if length (a_watch a) \<le> i then a
     else (case a_watch a ! i of
         Starting \<Rightarrow> if ok then a\<lparr>a_flag := True, a_watch := (a_watch a)[i := Watching]\<rparr> else a\<lparr>a_watch := (a_watch a)[i := Over]\<rparr>
       | Watching \<Rightarrow> if a_flag a then (if ev = Event then a\<lparr>a_level := configured a\<rparr> else a) else a\<lparr>a_watch := (a_watch a)[i := Over]\<rparr>
       | Over \<Rightarrow> a))"

text \<open>\<open>fds\<close> is what the environment of the process adds to a context. While a monitor holds the flag up,
  \<open>mdclog_format_initialize\<close> has nothing to do.\<close>

definition format_spec ::
  "string \<Rightarrow> ((string \<times> string) list \<Rightarrow> (string \<times> string) list) \<Rightarrow> thread \<Rightarrow> int \<Rightarrow> logger \<Rightarrow> logger" where
  "format_spec pn fds t mon a = (if a_flag a then a
     else set_ctx t (fds (a_ctx a t)) ((started pn a)\<lparr>a_level := configured a,
       a_watch := a_watch a @ (if mon \<noteq> 0 \<and> a_conf a \<noteq> None then [Starting] else [])\<rparr>))"

fun api_spec ::
  "string \<Rightarrow> ((string \<times> string) list \<Rightarrow> (string \<times> string) list) \<Rightarrow> api_op \<Rightarrow> logger \<Rightarrow> api_res \<times> logger" where
  "api_spec pn fds (Log t sev m tv) a = (if a_level a < sev then (Void, a)
     else let b = touch t (started pn a) in (Void, b\<lparr>a_out := a_out b @ log_lines tv (a_ident b) sev (a_ctx b t) m\<rparr>))"
| "api_spec pn fds (SetLevel l) a = (Void, a\<lparr>a_level := l\<rparr>)"
| "api_spec pn fds GetLevel a = (Lev (a_level a), a)"
| "api_spec pn fds (MdcAdd t k v) a = (case (k, v) of
       (Some k, Some v) \<Rightarrow>
         if escape_str k \<noteq> k then (Ret (- 1), a)
         else let b = started pn a in (Ret 0, set_ctx t (put_spec k (escape_str v) (a_ctx b t)) b)
     | _ \<Rightarrow> (Ret (- 1), a))"
| "api_spec pn fds (MdcGet t k) a = (case k of
       None \<Rightarrow> (Text None, a)
     | Some k \<Rightarrow> (Text (map_of (a_ctx a t) k), touch t (started pn a)))"
| "api_spec pn fds (MdcRemove t k) a = (case k of
       None \<Rightarrow> (Void, a)
     | Some k \<Rightarrow> let b = started pn a in (Void, set_ctx t (rm_spec k (a_ctx b t)) b))"
| "api_spec pn fds (MdcClean t) a = (Void, set_ctx t [] (started pn a))"
| "api_spec pn fds Init a = (Ret 0, a\<lparr>a_init := True, a_ident := Some (escape_str pn), a_flag := False\<rparr>)"
| "api_spec pn fds (Format t mon) a = (Ret 0, format_spec pn fds t mon a)"
| "api_spec pn fds (Setup t s mon) a = (Ret 0, format_spec pn fds t mon
     (a\<lparr>a_init := True, a_ident := Some (if valid_ident s then s else escape_str pn), a_flag := False\<rparr>))"
| "api_spec pn fds (ThreadExit t) a = (Void, a\<lparr>a_ctx := (a_ctx a)(t := []), a_used := a_used a - {t}\<rparr>)"
| "api_spec pn fds LibClean a = (Void, a\<lparr>a_init := False, a_ident := None, a_flag := False\<rparr>)"
| "api_spec pn fds (Watch i ifd wfd ev) a = (Void, watch_spec i (ifd \<ge> 0 \<and> wfd \<ge> 0) ev a)"
| "api_spec pn fds (FileChange ls) a = (Void, a\<lparr>a_conf := if a_conf a = None then None else file_level ls\<rparr>)"

text \<open>The arguments are NULL or C strings that fit into memory and whose length an \<open>int\<close> can hold. A new content
  of the configuration file has to name a level.\<close>

fun call_ok :: "api_op \<Rightarrow> bool" where
  "call_ok (Log t sev m tv) \<longleftrightarrow> NUL \<notin> set m \<and> length m < INT_MAX"
| "call_ok (MdcAdd t k v) \<longleftrightarrow> pred_option (\<lambda>k. c_string k \<and> length k \<le> INT_MAX) k \<and> pred_option c_string v"
| "call_ok (MdcGet t k) \<longleftrightarrow> pred_option c_string k"
| "call_ok (MdcRemove t k) \<longleftrightarrow> pred_option c_string k"
| "call_ok (Setup t s mon) \<longleftrightarrow> NUL \<notin> set s \<and> length s \<le> INT_MAX"
| "call_ok (FileChange ls) \<longleftrightarrow> list_all config_line ls \<and> file_level ls \<noteq> None"
| "call_ok _ \<longleftrightarrow> True"

section \<open>Representation\<close>

text \<open>An environment in which \<open>write\<close> takes every line in the end.\<close>

definition write_fair :: "(int \<Rightarrow> int \<Rightarrow> bool) \<Rightarrow> (nat \<Rightarrow> write_answer) \<Rightarrow> bool" where
  "write_fair retry ans \<longleftrightarrow> (\<forall>n. \<exists>k m. (\<forall>j < k. \<exists>e. ans (n + j) = WFail e \<and> retry (- 1) e) \<and> ans (n + k) = WAccept m \<and> PIPE_BUF \<le> m)"

text \<open>What never changes: memory can be allocated, the environment is made of strings that fit, and
  the configuration file can be examined and watched.\<close>

definition api_env :: "(int \<Rightarrow> int \<Rightarrow> bool) \<Rightarrow> string \<Rightarrow> ((string \<times> string) list \<Rightarrow> (string \<times> string) list) \<Rightarrow> 'a process_scheme \<Rightarrow> bool" where
  "api_env retry pn fds h \<longleftrightarrow> retry_policy retry \<and> write_fair retry (write_answers h) \<and>
     cstr (progname h) = Some pn \<and> 2 * length pn + 1 < SIZE_MOD \<and> length pn \<le> INT_MAX \<and>
     env_strings h \<and> 0 \<le> getpid_val h \<and> getpid_val h \<le> int INT_MAX \<and> fds = init_pairs h \<and>
     pthread_create_ret h = 0 \<and> (\<forall>f. conf_name h = Some f \<longrightarrow> lstat_ret h f = 0)"

definition api_at ::
  "(addr \<rightharpoonup> mdclog_attr) \<Rightarrow> (int \<Rightarrow> int \<Rightarrow> bool) \<Rightarrow> string \<Rightarrow> ((string \<times> string) list \<Rightarrow> (string \<times> string) list) \<Rightarrow> 'a process_scheme \<Rightarrow> logger \<Rightarrow> bool" where
  "api_at A retry pn fds h a \<longleftrightarrow> api_env retry pn fds h \<and> conf_rep h (a_conf a) \<and> attrs h = A \<and>
     current_level h = a_level a \<and> out h = a_out a \<and> (a_init a \<longleftrightarrow> init_done (configuration h) \<noteq> 0) \<and> (a_init a \<longrightarrow> key_created h) \<and>
     (a_flag a \<longleftrightarrow> log_format_init_done (configuration h) \<noteq> 0) \<and> (\<forall>t. tls h t \<noteq> None \<longrightarrow> key_created h \<and> t \<in> a_used a) \<and>
     (\<exists>C X. proc_rep (conf_name h) h (a_ident a) C X (a_watch a) \<and> a_ctx a = (\<lambda>t. pairs (C t)))"

text \<open>Between the calls there are no attributes.\<close>

abbreviation api_rep ::
  "(int \<Rightarrow> int \<Rightarrow> bool) \<Rightarrow> string \<Rightarrow> ((string \<times> string) list \<Rightarrow> (string \<times> string) list) \<Rightarrow> 'a process_scheme \<Rightarrow> logger \<Rightarrow> bool" where
  "api_rep \<equiv> api_at Map.empty"

section \<open>Steps\<close>

lemma env_more_eqD:
  assumes "mdclog.more h' = mdclog.more (h :: 'a process_scheme)"
  shows "getenv_val h' = getenv_val h" "getpid_val h' = getpid_val h" "files h' = files h" "lstat_ret h' = lstat_ret h"
    "pthread_create_ret h' = pthread_create_ret h" "monitors h' = monitors h" "watches h' = watches h"
  using assms by (cases h; cases h'; simp)+

lemma api_env_cong:
  assumes "api_env retry pn fds h" "write_answers h' = write_answers h" "progname h' = progname h" "getenv_val h' = getenv_val h"
    "getpid_val h' = getpid_val h" "lstat_ret h' = lstat_ret h" "pthread_create_ret h' = pthread_create_ret h"
  shows "api_env retry pn fds h'"
proof -
  note e = assms(4-7)
  have "put_field h' = put_field h" using e by (simp add: put_field_def env_value_def fun_eq_iff del: put_spec.simps)
  then have "init_pairs h' = init_pairs h" by (intro ext) (simp add: init_pairs_def put_pid_def e del: put_spec.simps)
  moreover have "env_strings h' = env_strings h" using e by (simp add: env_strings_def)
  ultimately show ?thesis using assms by (simp add: api_env_def conf_name_def)
qed

lemma conf_rep_cong: "getenv_val h' = getenv_val h \<Longrightarrow> files h' = files h \<Longrightarrow> conf_rep h' c \<longleftrightarrow> conf_rep h c"
  unfolding conf_rep_def by (simp only:)

lemma api_repE:
  assumes "api_at A retry pn fds h a"
  obtains C X where "proc_rep (conf_name h) h (a_ident a) C X (a_watch a)" "a_ctx a = (\<lambda>t. pairs (C t))" "lib_all h (a_ident a) C" "tidy h C X"
proof -
  from assms obtain C X where "proc_rep (conf_name h) h (a_ident a) C X (a_watch a)" "a_ctx a = (\<lambda>t. pairs (C t))" unfolding api_at_def by blast
  then show ?thesis using that proc_repD(1,2) by blast
qed

lemma api_repD:
  assumes "api_at A retry pn fds h a"
  shows "api_env retry pn fds h" "conf_rep h (a_conf a)" "attrs h = A" "current_level h = a_level a" "out h = a_out a"
    "a_init a \<longleftrightarrow> init_done (configuration h) \<noteq> 0" "a_init a \<Longrightarrow> key_created h" "a_flag a \<longleftrightarrow> log_format_init_done (configuration h) \<noteq> 0"
  using assms by (simp_all add: api_at_def)

lemma api_rep_used: "api_at A retry pn fds h a \<Longrightarrow> tls h t \<noteq> None \<Longrightarrow> key_created h \<and> t \<in> a_used a"
  unfolding api_at_def by blast

text \<open>A step that changes the heap and the variables of the library, and nothing around it.\<close>

lemma api_rep_step:
  assumes "api_at A retry pn fds h a" "proc_rep (conf_name h) h (a_ident a) C X (a_watch a)" "lib_all h' (a_ident b) D" "tidy h' D X" "mdclog.more h' = mdclog.more h"
    "write_answers h' = write_answers h" "progname h' = progname h" "attrs h' = B" "init_done (configuration h') \<noteq> 0 \<Longrightarrow> key_created h'"
    "\<And>t. tls h' t \<noteq> None \<Longrightarrow> key_created h' \<and> t \<in> a_used b" "a_conf b = a_conf a" "a_watch b = a_watch a" "current_level h' = a_level b" "out h' = a_out b"
    "a_init b \<longleftrightarrow> init_done (configuration h') \<noteq> 0" "a_flag b \<longleftrightarrow> log_format_init_done (configuration h') \<noteq> 0" "a_ctx b = (\<lambda>t. pairs (D t))"
  shows "api_at B retry pn fds h' b"
proof -
  note e = env_more_eqD [OF assms(5)]
  have n: "conf_name h' = conf_name h" by (simp add: conf_name_def e)
  have "watch_rep (conf_name h) h' X (a_watch a)" by (rule watch_rep_cong [OF proc_repD(3) [OF assms(2)] e(6,7)])
  then have "proc_rep (conf_name h') h' (a_ident b) D X (a_watch b)" using assms(3,4,12) proc_repD(4) [OF assms(2)] n by (simp add: proc_rep_def)
  moreover have "api_env retry pn fds h'" by (rule api_env_cong [OF api_repD(1) [OF assms(1)] assms(6,7) e(1,2,4,5)])
  moreover have "conf_rep h' (a_conf b)" using api_repD(2) [OF assms(1)] conf_rep_cong [OF e(1,3)] assms(11) by simp
  ultimately show ?thesis using assms(8-10,13-17) unfolding api_at_def by blast
qed

text \<open>A step that leaves the heap alone.\<close>

lemma api_rep_cong:
  assumes "api_at A retry pn fds h a" "strs h' = strs h" "nodes h' = nodes h" "lists h' = lists h" "tls h' = tls h" "brk h \<le> brk h'"
    "malloc_ok h' = malloc_ok h" "setspecific_ec h' = setspecific_ec h" "once_ec h' = once_ec h" "key_create_ec h' = key_create_ec h"
    "key_created h' = key_created h" "configuration h' = configuration h" "attrs h' = B" "write_answers h' = write_answers h"
    "progname h' = progname h" "mdclog.more h' = mdclog.more h"
  shows "api_at B retry pn fds h' (a\<lparr>a_level := current_level h', a_out := out h'\<rparr>)"
proof -
  from assms(1) obtain C X where r: "proc_rep (conf_name h) h (a_ident a) C X (a_watch a)" "a_ctx a = (\<lambda>t. pairs (C t))" "lib_all h (a_ident a) C" "tidy h C X"
    by (rule api_repE)
  have "cfg_identity (configuration h') = cfg_identity (configuration h)" using assms(12) by simp
  from lib_all_cong [OF r(3) assms(2-10) this] r(4) have "lib_all h' (a_ident a) C" "tidy h' C X" by blast+
  then show ?thesis by (intro api_rep_step [OF assms(1) r(1)]) (use assms r(2) api_repD [OF assms(1)] api_rep_used [OF assms(1)] in simp_all)
qed

lemma api_rep_level:
  assumes "api_at A retry pn fds h a" "brk h \<le> n"
  shows "api_at A retry pn fds (h\<lparr>brk := n, current_level := l\<rparr>) (a\<lparr>a_level := l\<rparr>)" (is "api_at A _ _ _ ?h _")
proof -
  have "mdclog.more ?h = mdclog.more h" by (cases h) simp
  then have "api_at A retry pn fds ?h (a\<lparr>a_level := l, a_out := out h\<rparr>)" using api_rep_cong [OF assms(1), of ?h A] assms(2) api_repD(3) [OF assms(1)] by simp
  moreover have "a\<lparr>a_level := l, a_out := out h\<rparr> = a\<lparr>a_level := l\<rparr>" using assms(1) by (simp add: api_at_def)
  ultimately show ?thesis by simp
qed

text \<open>An initialisation: there is a new identity, and the library is otherwise unchanged. \<open>mdclog_init\<close>
  takes the flags down first.\<close>

abbreviation reset :: "'a mdclog_scheme \<Rightarrow> 'a mdclog_scheme" where
  "reset h \<equiv> set_log_format_init_done 0 (set_init_done 0 h)"

lemma api_rep_identity:
  assumes "api_at A retry pn fds h a" "proc_rep (conf_name h) h (a_ident a) C X (a_watch a)" "a_ctx a = (\<lambda>t. pairs (C t))"
    "same_lib g h'" "g = h \<or> g = reset h" "lib_all h' (Some s) C" "tidy h' C X" "key_created h'" "init_done (configuration h') \<noteq> 0" "attrs h' = B"
  shows "api_at B retry pn fds h' (a\<lparr>a_init := True, a_ident := Some s, a_flag := log_format_init_done (configuration g) \<noteq> 0\<rparr>)"
proof -
  note d = api_repD [OF assms(1)]
  have m: "mdclog.more (reset h) = mdclog.more h" by (cases h) (simp add: set_log_format_init_done_def set_init_done_def)
  have e: "tls h' = tls h" "current_level h' = a_level a" "out h' = a_out a" "write_answers h' = write_answers h" "progname h' = progname h"
    "mdclog.more h' = mdclog.more h" "log_format_init_done (configuration h') = log_format_init_done (configuration g)"
    using assms(4,5) d(4,5) m by (auto simp: same_lib_def set_log_format_init_done_def set_init_done_def)
  show ?thesis
    by (rule api_rep_step [OF assms(1,2) _ assms(7) e(6,4,5) assms(10)]) (use assms(3,6,8,9) e api_rep_used [OF assms(1)] in simp_all)
qed

text \<open>Every call that needs the library begins with its initialisation.\<close>

lemma api_started:
  assumes "api_at A retry pn fds h a"
  shows "\<exists>h1. init_library None h = Some h1 \<and> init_library None h1 = Some h1 \<and> api_at A retry pn fds h1 (started pn a) \<and>
    current_level h1 = current_level h \<and> mdclog.more h1 = mdclog.more h"
proof (cases "a_init a")
  case True
  then show ?thesis using assms api_repD(6) [OF assms] by (simp add: init_library_def started_def)
next
  case False
  from assms obtain C X where r: "proc_rep (conf_name h) h (a_ident a) C X (a_watch a)" "a_ctx a = (\<lambda>t. pairs (C t))" "lib_all h (a_ident a) C" "tidy h C X"
    by (rule api_repE)
  have p: "init_done (configuration h) = 0" "cstr (progname h) = Some pn" "2 * length pn + 1 < SIZE_MOD" "length pn \<le> INT_MAX"
    "attr_ident None h = Some None" using api_repD(1,6) [OF assms] False by (simp_all add: api_env_def attr_ident_def)
  obtain h1 where h1: "init_library None h = Some h1" "lib_all h1 (Some (escape_str pn)) C" "tidy h1 C X" "key_created h1"
    "init_done (configuration h1) \<noteq> 0" "same_lib h h1" "attrs h1 = attrs h" using init_unnamed_all [OF r(3,4) p] by blast
  have "api_at A retry pn fds h1 (a\<lparr>a_init := True, a_ident := Some (escape_str pn), a_flag := log_format_init_done (configuration h) \<noteq> 0\<rparr>)"
    by (rule api_rep_identity [OF assms r(1,2) h1(6) _ h1(2-5)]) (simp_all add: h1(7) api_repD(3) [OF assms])
  then have "api_at A retry pn fds h1 (started pn a)" using False by (simp add: started_def flip: api_repD(8) [OF assms])
  then show ?thesis using h1 by (auto simp: init_library_def same_lib_def)
qed

lemma a_init_started [simp]: "a_init (started pn a)"
  by (simp add: started_def)

lemma ctx_started [simp]: "a_ctx (started pn a) = a_ctx a" "a_level (started pn a) = a_level a" "a_out (started pn a) = a_out a"
  by (simp_all add: started_def)

text \<open>The thread's view of an initialised library, and what an operation on its context comes to.\<close>

definition thread_view ::
  "(int \<Rightarrow> int \<Rightarrow> bool) \<Rightarrow> string \<Rightarrow> ((string \<times> string) list \<Rightarrow> (string \<times> string) list) \<Rightarrow> thread \<Rightarrow> 'a process_scheme \<Rightarrow> logger \<Rightarrow> cell list \<Rightarrow> bool" where
  "thread_view retry pn fds t h a cs \<longleftrightarrow> api_rep retry pn fds h a \<and> lib_rep h t (a_ident a) cs \<and> pairs cs = a_ctx a t \<and>
     (\<forall>h' cs'. mdc_rep h' t cs' \<longrightarrow> frame t h cs h' cs' \<longrightarrow> api_rep retry pn fds h' (set_ctx t (pairs cs') a))"

lemma thread_viewD:
  assumes "thread_view retry pn fds t h a cs"
  shows "lib_rep h t (a_ident a) cs" "pairs cs = a_ctx a t"
    "mdc_rep h' t cs' \<Longrightarrow> frame t h cs h' cs' \<Longrightarrow> pairs cs' = ps \<Longrightarrow> api_rep retry pn fds h' (set_ctx t ps a)"
  using assms by (auto simp: thread_view_def)

lemma api_rep_frame:
  assumes "api_at A retry pn fds h a" "key_created h" "proc_rep (conf_name h) h (a_ident a) C X (a_watch a)" "a_ctx a = (\<lambda>t. pairs (C t))"
    and f: "mdc_rep h' t cs'" "frame t h (C t) h' cs'"
  shows "api_at A retry pn fds h' (set_ctx t (pairs cs') a)"
proof -
  note d = api_repD [OF assms(1)]
  note m = frame_lib [OF f(2)]
  have more: "mdclog.more h' = mdclog.more h" using f(2) by (cases h; cases h'; simp add: frame_def)
  have all: "lib_all h' (a_ident a) (C(t := cs'))" "tidy h' (C(t := cs')) X"
    using lib_all_frame [OF proc_repD(1) [OF assms(3)] assms(2) f] tidy_frame [OF proc_repD(2) [OF assms(3)] f(2)] .
  have used: "key_created h' \<and> u \<in> insert t (a_used a)" if "tls h' u \<noteq> None" for u
    using that api_rep_used [OF assms(1), of u] f(2) mdc_repD(2) [OF f(1)] by (auto simp: frame_def)
  have ctx: "(\<lambda>u. pairs ((C(t := cs')) u)) = (a_ctx a)(t := pairs cs')" using assms(4) by (auto simp: fun_eq_iff)
  show ?thesis
    by (rule api_rep_step [OF assms(1,3) _ all(2) more _ _ _ mdc_repD(2) [OF f(1)]]) (use all(1) m d used ctx in \<open>simp_all add: set_ctx_def\<close>)
qed

lemma api_thread:
  assumes "api_rep retry pn fds h a" "a_init a" shows "\<exists>cs. thread_view retry pn fds t h a cs"
proof -
  from assms(1) obtain C X where r: "proc_rep (conf_name h) h (a_ident a) C X (a_watch a)" "a_ctx a = (\<lambda>t. pairs (C t))" "lib_all h (a_ident a) C" "tidy h C X"
    by (rule api_repE)
  have k: "key_created h" "init_done (configuration h) \<noteq> 0" using api_repD(6,7) [OF assms(1)] assms(2) by simp_all
  from lib_all_rep [OF r(3) this] show ?thesis
    using assms(1) r(2) api_rep_frame [OF assms(1) k(1) r(1,2)] by (intro exI [of _ "C t"]) (simp add: thread_view_def)
qed

text \<open>The beginning of a call that needs the library.\<close>

lemma api_enter:
  assumes "api_rep retry pn fds h a"
  obtains h1 cs where "init_library None h = Some h1" "init_library None h1 = Some h1" "current_level h1 = current_level h"
    "thread_view retry pn fds t h1 (started pn a) cs"
proof -
  obtain h1 where h1: "init_library None h = Some h1" "init_library None h1 = Some h1" "api_rep retry pn fds h1 (started pn a)"
    "current_level h1 = current_level h" using api_started [OF assms] by blast
  then show ?thesis using that api_thread [OF h1(3) a_init_started] by blast
qed

lemma set_ctx_id [simp]: "set_ctx t (a_ctx a t) a = touch t a"
  by (simp add: set_ctx_def touch_def)

lemma set_ctx_started [simp]: "set_ctx t (a_ctx a t) (started pn a) = touch t (started pn a)"
  using set_ctx_id [of t "started pn a"] by simp

lemma touch_simps [simp]: "a_ctx (touch t a) = a_ctx a" "a_ident (touch t a) = a_ident a" "a_level (touch t a) = a_level a" "a_out (touch t a) = a_out a"
  by (simp_all add: touch_def)

lemma value_no_NUL:
  assumes "mdc_rep h t cs" "map_of (pairs cs) k = Some v" shows "NUL \<notin> set v"
proof -
  obtain c where "find (\<lambda>c. c_key c = k) cs = Some c" "c_val c = v" using find_key_map_of [of k cs] assms(2) by auto
  then show ?thesis using mdc_val_at(3) [OF assms(1)] by blast
qed

section \<open>One lemma per call\<close>

text \<open>A call does what the specification says, without a fault.\<close>

definition implements ::
  "(int \<Rightarrow> int \<Rightarrow> bool) \<Rightarrow> block \<Rightarrow> string \<Rightarrow> ((string \<times> string) list \<Rightarrow> (string \<times> string) list) \<Rightarrow> api_op \<Rightarrow> 'a process_scheme \<Rightarrow> logger \<Rightarrow> bool" where
  "implements retry stack pn fds op h a \<longleftrightarrow> (\<exists>h'. api_call retry stack op h = Some (fst (api_spec pn fds op a), h') \<and>
     api_rep retry pn fds h' (snd (api_spec pn fds op a)))"

lemma call_set_level: "api_rep retry pn fds h a \<Longrightarrow> implements retry stack pn fds (SetLevel l) h a"
  using api_rep_level [of Map.empty retry pn fds h a "brk h" l] by (simp add: implements_def mdclog_level_set_def)

lemma call_get_level: "api_rep retry pn fds h a \<Longrightarrow> implements retry stack pn fds GetLevel h a"
  by (auto simp: implements_def mdclog_level_get_def api_at_def)

lemma api_rep_errno: assumes "api_rep retry pn fds h a" shows "api_rep retry pn fds (h\<lparr>errno := e\<rparr>) a"
  using api_rep_cong [OF assms, of "h\<lparr>errno := e\<rparr>"] assms by (cases h) (auto simp: api_at_def)

lemma special_iff: "c_string k \<Longrightarrow> length k \<le> INT_MAX \<Longrightarrow> mdclog_internal_contains_special_characters (cblock k) = Some (escape_str k \<noteq> k)"
  using contains_special_correct [OF c_stringD(1)] by (simp add: escape_str_id_iff list_ex_iff list_all_iff)

lemma call_add_strings:
  assumes "api_rep retry pn fds h a" "call_ok (MdcAdd t (Some k) (Some v))" shows "implements retry stack pn fds (MdcAdd t (Some k) (Some v)) h a"
proof -
  have k: "c_string k" "length k \<le> INT_MAX" "c_string v" using assms(2) by simp_all
  note sp = special_iff [OF k(1,2)]
  show ?thesis
  proof (cases "escape_str k = k")
    case False
    then show ?thesis using api_rep_errno [OF assms(1)] sp by (simp add: implements_def mdclog_mdc_add_def)
  next
    case True
    from assms(1) obtain h1 cs where h1: "init_library None h = Some h1" "init_library None h1 = Some h1"
      "thread_view retry pn fds t h1 (started pn a) cs" by (rule api_enter)
    note view = thread_viewD [OF h1(3)]
    obtain h' cs' where e: "mdclog_mdc_add t (Some (cblock k)) (Some (cblock v)) h1 = Some (0, h')" "lib_rep h' t (a_ident (started pn a)) cs'"
      "frame t h1 cs h' cs'" "pairs cs' = put_spec k (escape_str v) (pairs cs)"
      using mdc_add_ok [OF view(1) k(1,3) True k(2) c_stringD(1) [OF k(3)]] by blast
    have "mdclog_mdc_add t (Some (cblock k)) (Some (cblock v)) h = mdclog_mdc_add t (Some (cblock k)) (Some (cblock v)) h1"
      using h1(1,2) sp True by (simp add: mdclog_mdc_add_def)
    then show ?thesis using True e view(2,3) by (auto simp: implements_def Let_def lib_rep_def simp del: put_spec.simps)
  qed
qed

lemma call_add:
  assumes "api_rep retry pn fds h a" "call_ok (MdcAdd t k v)" shows "implements retry stack pn fds (MdcAdd t k v) h a"
proof (cases "k = None \<or> v = None")
  case True
  then show ?thesis using api_rep_errno [OF assms(1)] by (auto simp: implements_def mdclog_mdc_add_def split: option.split)
next
  case False
  then show ?thesis using call_add_strings [OF assms(1)] assms(2) by auto
qed

lemma call_get_string:
  assumes "api_rep retry pn fds h a" "call_ok (MdcGet t (Some k))" shows "implements retry stack pn fds (MdcGet t (Some k)) h a"
proof -
  from assms(1) obtain h1 cs where h1: "init_library None h = Some h1" "init_library None h1 = Some h1"
      "thread_view retry pn fds t h1 (started pn a) cs" by (rule api_enter)
    note view = thread_viewD [OF h1(3)]
  have k: "c_string k" using assms(2) by simp
  obtain h2 where g: "mdc_rep h2 t cs" "frame t h1 cs h2 cs" "mdclog_mdc_get t (Some (cblock k)) h1 =
      Some (case map_of (pairs cs) k of None \<Rightarrow> (None, h2) | Some v \<Rightarrow> (Some (brk h2), new_block (cblock v) h2))"
    using mdc_get_frame [OF view(1) k] by blast
  have "mdclog_mdc_get t (Some (cblock k)) h = mdclog_mdc_get t (Some (cblock k)) h1"
    using h1(1,2) by (simp add: mdclog_mdc_get_def)
  note get = this [unfolded g(3) view(2)]
  show ?thesis
  proof (cases "map_of (a_ctx a t) k")
    case None
    then show ?thesis using get view(3) [OF g(1,2) view(2)] by (simp add: implements_def api_get_def)
  next
    case (Some v)
    let ?h = "new_block (cblock v) h2"
    note f = frame_temp [OF g(1) mdc_rep_new_block [OF g(1)] frame_refl]
    have "NUL \<notin> set v" using value_no_NUL [OF g(1)] view(2) Some by simp
    then have "str_at (Some (brk h2)) ?h = Some v" by (simp add: str_at_def new_block_def)
    then have "api_get t (Some k) h = Some (Text (Some v), release (brk h2) ?h)" using get Some f(3) by (simp add: api_get_def)
    moreover have "api_rep retry pn fds (release (brk h2) ?h) (touch t (started pn a))"
      using view(3) [OF f(4) frame_trans [OF g(2) f(5)] view(2)] by simp
    ultimately show ?thesis using Some by (simp add: implements_def)
  qed
qed

lemma call_get:
  assumes "api_rep retry pn fds h a" "call_ok (MdcGet t k)" shows "implements retry stack pn fds (MdcGet t k) h a"
  using assms call_get_string [OF assms(1)] by (cases k) (simp_all add: implements_def api_get_def mdclog_mdc_get_def)

lemma call_remove_string:
  assumes "api_rep retry pn fds h a" "call_ok (MdcRemove t (Some k))" shows "implements retry stack pn fds (MdcRemove t (Some k)) h a"
proof -
  from assms(1) obtain h1 cs where h1: "init_library None h = Some h1" "init_library None h1 = Some h1"
      "thread_view retry pn fds t h1 (started pn a) cs" by (rule api_enter)
    note view = thread_viewD [OF h1(3)]
  have k: "c_string k" using assms(2) by simp
  obtain h' cs' where e: "mdclog_mdc_remove t (Some (cblock k)) h1 = Some h'" "lib_rep h' t (a_ident (started pn a)) cs'" "frame t h1 cs h' cs'"
    "pairs cs' = rm_spec k (pairs cs)" using mdc_remove_ok [OF view(1) k] by blast
  have "mdclog_mdc_remove t (Some (cblock k)) h = mdclog_mdc_remove t (Some (cblock k)) h1" using h1(1,2) by (simp add: mdclog_mdc_remove_def)
  then show ?thesis using e view(2,3) by (auto simp: implements_def Let_def lib_rep_def)
qed

lemma call_remove:
  assumes "api_rep retry pn fds h a" "call_ok (MdcRemove t k)" shows "implements retry stack pn fds (MdcRemove t k) h a"
  using assms call_remove_string [OF assms(1)] by (cases k) (simp_all add: implements_def mdclog_mdc_remove_def)

lemma call_clean:
  assumes "api_rep retry pn fds h a" shows "implements retry stack pn fds (MdcClean t) h a"
proof -
  from assms(1) obtain h1 cs where h1: "init_library None h = Some h1" "init_library None h1 = Some h1"
      "thread_view retry pn fds t h1 (started pn a) cs" by (rule api_enter)
    note view = thread_viewD [OF h1(3)]
  have "mdc_rep h1 t cs" "env_ok t h1" using view(1) by (simp_all add: lib_rep_def)
  then obtain h' where e: "mdclog_internal_clean_mdclist t h1 = Some h'" "mdc_rep h' t []" "frame t h1 cs h' []"
    using clean_mdclist_ok by blast
  then show ?thesis using h1(1) view(3) [OF e(2,3), of "[]"] by (simp add: implements_def mdclog_mdc_clean_def)
qed

lemma log_lines_cases:
  obtains "log_lines tv i sev ps m = []" | line where "log_lines tv i sev ps m = [line]"
  by (cases "length (entry_head (PIPE_BUF - 1) tv i sev ps) + 20 = PIPE_BUF - 1") (simp_all add: log_lines_def)

lemma call_log:
  assumes "api_rep retry pn fds h a" "call_ok (Log t sev m tv)" "length stack = PIPE_BUF"
  shows "implements retry stack pn fds (Log t sev m tv) h a"
proof (cases "a_level a < sev")
  case True
  moreover have "current_level h = a_level a" using assms(1) by (simp add: api_at_def)
  ultimately show ?thesis using assms(1) by (simp add: implements_def mdclog_write_def)
next
  case False
  from assms(1) obtain h1 cs where h1: "init_library None h = Some h1" "init_library None h1 = Some h1" "current_level h1 = current_level h"
    "thread_view retry pn fds t h1 (started pn a) cs" by (rule api_enter)
  note view = thread_viewD [OF h1(4)]
  have rep: "api_rep retry pn fds h1 (started pn a)" using h1(4) by (simp add: thread_view_def)
  then have env: "retry_policy retry" "write_fair retry (write_answers h1)" "out h1 = a_out a" "current_level h1 = a_level a" "sev \<le> current_level h1"
    using False by (simp_all add: api_at_def api_env_def)
  obtain k n where k: "\<forall>j < k. \<exists>e. write_answers h1 (write_calls h1 + j) = WFail e \<and> retry (- 1) e" "write_answers h1 (write_calls h1 + k) = WAccept n"
    "PIPE_BUF \<le> n" using env(2) unfolding write_fair_def by blast
  have m: "NUL \<notin> set m" "length m < INT_MAX" using assms(2) by simp_all
  have w: "mdclog_write retry t sev (Formatted m) tv stack h = mdclog_write retry t sev (Formatted m) tv stack h1"
    using h1(1-3) env(5) by (simp add: mdclog_write_def)
  let ?ls = "log_lines tv (a_ident (started pn a)) sev (pairs cs) m"
  obtain h2 where h2: "mdc_rep h2 t cs" "frame t h1 cs h2 cs" "case ?ls of [] \<Rightarrow> mdclog_write retry t sev (Formatted m) tv stack h1 = Some h2
     | line # _ \<Rightarrow> length line < PIPE_BUF \<and> (\<exists>e. mdclog_write retry t sev (Formatted m) tv stack h1 =
         Some (h2\<lparr>brk := Suc (brk h2), write_calls := write_calls h1 + k + 1, out := out h1 @ [take n line], errno := e\<rparr>))"
    using mdclog_write_text [OF view(1) m assms(3) env(5,1) k(1,2), of tv] by blast
  have same: "(touch t (started pn a))\<lparr>a_level := a_level a\<rparr> = touch t (started pn a)" "(touch t (started pn a))\<lparr>a_out := a_out a\<rparr> = touch t (started pn a)"
    by (cases a; simp add: started_def touch_def)+
  have rep2: "api_rep retry pn fds h2 (touch t (started pn a))" using view(3) [OF h2(1,2) view(2)] by simp
  then have lvl: "current_level h2 = a_level a" "out h2 = a_out a" by (simp_all add: api_at_def)
  show ?thesis
  proof (rule log_lines_cases [of tv "a_ident (started pn a)" sev "pairs cs" m])
    assume "?ls = []"
    moreover have "api_rep retry pn fds h2 ((touch t (started pn a))\<lparr>a_out := a_out a\<rparr>)" unfolding same(2) by (rule rep2)
    ultimately show ?thesis using False w h2(3) view(2) by (simp add: implements_def Let_def)
  next
    fix line assume l: "?ls = [line]"
    then obtain e where e: "length line < PIPE_BUF" "mdclog_write retry t sev (Formatted m) tv stack h1 =
        Some (h2\<lparr>brk := Suc (brk h2), write_calls := write_calls h1 + k + 1, out := out h1 @ [take n line], errno := e\<rparr>)" (is "_ = Some ?h")
      using h2(3) by auto
    have "mdclog.more ?h = mdclog.more h2" by (cases h2) simp
    then have "api_rep retry pn fds ?h ((touch t (started pn a))\<lparr>a_level := current_level ?h, a_out := out ?h\<rparr>)"
      by (intro api_rep_cong [OF rep2]) (simp_all add: api_repD(3) [OF rep2])
    moreover have "take n line = line" using e(1) k(3) by simp
    ultimately show ?thesis using False w e(2) l view(2) lvl env(3) same by (simp add: implements_def Let_def)
  qed
qed

text \<open>The end of a thread.\<close>

lemma call_exit:
  assumes "api_rep retry pn fds h a" shows "implements retry stack pn fds (ThreadExit t) h a"
proof -
  let ?a = "a\<lparr>a_ctx := (a_ctx a)(t := []), a_used := a_used a - {t}\<rparr>"
  from assms obtain C X where C: "proc_rep (conf_name h) h (a_ident a) C X (a_watch a)" "a_ctx a = (\<lambda>t. pairs (C t))" "lib_all h (a_ident a) C" "tidy h C X"
    by (rule api_repE)
  note raw = lib_allD(1) [OF C(3), of t]
  have gone: "api_rep retry pn fds h' ?a" if "api_rep retry pn fds h' (set_ctx t [] b)" "tls h' t = None" "b = a" for h' b
    using that unfolding api_at_def set_ctx_def by auto
  show ?thesis
  proof (cases "tls h t")
    case None
    then have "C t = []" using raw by (simp add: lib_raw_def mdc_rep_def)
    then have "(a_ctx a)(t := []) = a_ctx a" using C(2) by (simp add: fun_eq_iff pairs_def)
    then have "api_rep retry pn fds h ?a" using assms None unfolding api_at_def by auto
    then show ?thesis using None by (simp add: implements_def thread_exit_def)
  next
    case (Some l)
    then have key: "key_created h" using api_rep_used [OF assms, of t] by simp
    then have rep: "mdc_rep h t (C t)" "setspecific_ec h t = 0" using raw key_created_idem [OF key] by (simp_all add: lib_raw_def env_ok_def)
    obtain h' where d: "destroy_list t (Some l) h = Some h'" "mdc_rep h' t []" "frame t h (C t) h' []" "tls h' t = None"
      using destroy_list_ok [OF rep(1) Some rep(2)] by blast
    have "api_rep retry pn fds h' ?a"
      using api_rep_frame [OF assms key C(1,2) d(2,3)] gone [OF _ d(4)] by (simp add: pairs_def)
    then show ?thesis using Some d(1) destroy_list_exit [OF rep(1) Some rep(2)] by (simp add: implements_def thread_exit_def)
  qed
qed

text \<open>The calls that change the identity.\<close>

lemma reset_rep:
  assumes "lib_all h i C" "tidy h C X" shows "lib_all (reset h) i C" "tidy (reset h) C X"
  using lib_all_cong [OF assms(1), of "reset h"] assms(2) by (simp_all add: set_log_format_init_done_def set_init_done_def)

lemma same_lib_trans: "same_lib h h1 \<Longrightarrow> same_lib h1 h2 \<Longrightarrow> same_lib h h2"
  by (simp add: same_lib_def)

lemma reset_flag [simp]: "log_format_init_done (configuration (reset h)) = 0"
  by (simp add: set_log_format_init_done_def set_init_done_def)

lemma call_init:
  assumes "api_rep retry pn fds h a" shows "implements retry stack pn fds Init h a"
proof -
  from assms obtain C X where r: "proc_rep (conf_name h) h (a_ident a) C X (a_watch a)" "a_ctx a = (\<lambda>t. pairs (C t))" "lib_all h (a_ident a) C" "tidy h C X"
    by (rule api_repE)
  have p: "init_done (configuration (reset h)) = 0" "cstr (progname (reset h)) = Some pn" "2 * length pn + 1 < SIZE_MOD" "length pn \<le> INT_MAX"
    "attr_ident None (reset h) = Some None" "attrs (reset h) = Map.empty"
    using api_repD(1,3) [OF assms] by (simp_all add: api_env_def attr_ident_def set_log_format_init_done_def set_init_done_def)
  obtain h' where h': "init_library None (reset h) = Some h'" "lib_all h' (Some (escape_str pn)) C" "tidy h' C X" "key_created h'"
    "init_done (configuration h') \<noteq> 0" "same_lib (reset h) h'" "attrs h' = attrs (reset h)" using init_unnamed_all [OF reset_rep [OF r(3,4)] p(1-5)] by blast
  have "attrs h' = Map.empty" using h'(7) p(6) by simp
  from api_rep_identity [OF assms r(1,2) h'(6) _ h'(2-5) this] show ?thesis
    using h'(1) by (simp add: implements_def mdclog_init_def)
qed

lemma call_lib_clean:
  assumes "api_rep retry pn fds h a" shows "implements retry stack pn fds LibClean h a"
proof -
  from assms obtain C X where r: "proc_rep (conf_name h) h (a_ident a) C X (a_watch a)" "a_ctx a = (\<lambda>t. pairs (C t))" "lib_all h (a_ident a) C" "tidy h C X"
    by (rule api_repE)
  note c = lib_clean_ok [OF lib_allD(1) [OF r(3)]]
  have f: "strs (cleaned h) = strs h |` (- set_option (cfg_identity (configuration h)))" "nodes (cleaned h) = nodes h" "lists (cleaned h) = lists h"
    "tls (cleaned h) = tls h" "attrs (cleaned h) = attrs h" "current_level (cleaned h) = current_level h" "out (cleaned h) = out h"
    "write_answers (cleaned h) = write_answers h" "progname (cleaned h) = progname h" "init_done (configuration (cleaned h)) = 0"
    "log_format_init_done (configuration (cleaned h)) = 0" "mdclog.more (cleaned h) = mdclog.more h" "key_created (cleaned h) = key_created h"
    "cfg_identity (configuration (cleaned h)) = None"
    by (cases h; simp add: cleaned_def init_released_def set_log_format_init_done_def set_init_done_def set_cfg_identity_def)+
  have "lib_all (cleaned h) None C" using c(2) r(3) f(4) by (simp add: lib_all_def apart_def)
  moreover have "tidy (cleaned h) C X" using r(4) unfolding tidy_def f(1-4,14) by (auto simp: restrict_map_def split: if_splits dest: subsetD [OF _ domI])
  ultimately have "api_rep retry pn fds (cleaned h) (a\<lparr>a_init := False, a_ident := None, a_flag := False\<rparr>)"
    by (intro api_rep_step [OF assms r(1)]) (use f r(2) api_repD [OF assms] api_rep_used [OF assms] in simp_all)
  then show ?thesis using c(1) by (simp add: implements_def)
qed

text \<open>The attributes: a new object, an identity in it if it is valid, and the initialisation with it.\<close>

lemma lib_all_malloc: "lib_all h i C \<Longrightarrow> malloc_ok h x"
  using lib_allD(1) by (fastforce simp: lib_raw_def env_ok_def)

lemma attr_session_named:
  fixes h :: "'a mdclog_scheme"
  assumes rep: "lib_all h i C" "tidy h C X" and s: "NUL \<notin> set s" "valid_ident s"
  defines "a \<equiv> brk h" and "h1 \<equiv> h\<lparr>brk := Suc (brk h), attrs := [brk h \<mapsto> \<lparr>attr_identity = None\<rparr>]\<rparr>"
  shows "\<exists>h2 h3. mdclog_attr_set_ident (Some a) (Some (cblock s)) h1 = Some (0, h2) \<and> mdclog_init (Some a) h2 = Some (0, h3) \<and>
    lib_all h3 (Some s) C \<and> tidy h3 C X \<and> key_created h3 \<and> init_done (configuration h3) \<noteq> 0 \<and> same_lib (reset h) h3 \<and> attrs h3 = [a \<mapsto> \<lparr>attr_identity = None\<rparr>]"
proof -
  define h2 where "h2 = h1\<lparr>brk := Suc (Suc a), strs := (strs h)(Suc a \<mapsto> cblock s), attrs := [a \<mapsto> \<lparr>attr_identity = Some (Suc a)\<rparr>]\<rparr>"
  let ?r = "reset h2"
  note defs = h2_def h1_def a_def set_log_format_init_done_def set_init_done_def
  have 1: "mdclog_attr_set_ident (Some a) (Some (cblock s)) h1 = Some (0, h2)"
    using attr_set_ident_ok [of h1 a "\<lparr>attr_identity = None\<rparr>" "cblock s" s] s lib_all_malloc [OF rep(1)] by (simp add: valid_ident_def h1_def h2_def a_def)
  have f: "strs ?r = (strs h)(Suc a \<mapsto> cblock s)" "attrs ?r a = Some \<lparr>attr_identity = Some (Suc a)\<rparr>"
    "init_done (configuration ?r) = 0" "cfg_identity (configuration ?r) = cfg_identity (configuration h)"
    "strs ?r (Suc a) = Some (cblock s)" "attrs ?r = [a \<mapsto> \<lparr>attr_identity = Some (Suc a)\<rparr>]"
    by (simp_all add: defs)
  have raw: "lib_raw ?r t i (C t)" "Suc a \<notin> str_addrs (C t)" "cfg_identity (configuration h) \<noteq> Some (Suc a)" for t
    by (rule lib_raw_attrs [OF lib_allD(1) [OF rep(1)] f(1)]; simp add: defs)+
  have cfg: "cfg_identity (configuration ?r) \<noteq> Some (Suc a)" using raw(3) f(4) by simp
  note init = init_library_attr [OF raw(1) f(3,2,5) s(1) raw(2) cfg]
  obtain h3 where h3: "init_library (Some a) ?r = Some h3" "same_lib ?r h3"
    "attrs h3 = (attrs ?r)(a \<mapsto> \<lparr>attr_identity = None\<rparr>)" "cfg_identity (configuration h3) = Some (Suc a)"
    "strs h3 = strs ?r |` (- set_option (cfg_identity (configuration ?r)))" using init by blast
  have r: "lib_rep h3 t (Some s) (C t)" for t using init [of t] h3(1) by auto
  have "same_lib (reset h) ?r" by (cases h) (simp add: same_lib_def defs)
  then have sl: "same_lib (reset h) h3" using h3(2) same_lib_trans by blast
  have cfg': "cfg_identity (configuration (reset h)) = cfg_identity (configuration h)" "strs (reset h) = strs h" by (simp_all add: defs)
  have S: "strs h3 = (strs (reset h) |` (- set_option (cfg_identity (configuration (reset h)))))(Suc a \<mapsto> cblock s)"
    unfolding h3(5) f(1,4) cfg' using raw(3) by (auto simp: restrict_map_def fun_eq_iff)
  have "Suc a \<notin> dom X" using lib_all_fresh [OF rep] by (simp add: a_def)
  from lib_all_init [OF reset_rep [OF rep] r sl h3(4) disjI1 [OF S] this] have "lib_all h3 (Some s) C" "tidy h3 C X" .
  moreover have "key_created h3" "init_done (configuration h3) \<noteq> 0" using r [of 0] by (auto simp: lib_rep_def dest: mdc_repD(2))
  ultimately show ?thesis using 1 h3(1,3) sl f(6) by (simp add: mdclog_init_def)
qed

lemma attr_session_unnamed:
  fixes h :: "'a process_scheme"
  assumes rep: "lib_all h i C" "tidy h C X" and env: "api_env retry pn fds h" and s: "NUL \<notin> set s" "length s \<le> INT_MAX" "\<not> valid_ident s"
  defines "a \<equiv> brk h" and "h1 \<equiv> h\<lparr>brk := Suc (brk h), attrs := [brk h \<mapsto> \<lparr>attr_identity = None\<rparr>]\<rparr>"
  shows "\<exists>h2 h3. mdclog_attr_set_ident (Some a) (Some (cblock s)) h1 = Some (- 1, h2) \<and> mdclog_init (Some a) h2 = Some (0, h3) \<and>
    lib_all h3 (Some (escape_str pn)) C \<and> tidy h3 C X \<and> key_created h3 \<and> init_done (configuration h3) \<noteq> 0 \<and> same_lib (reset h) h3 \<and>
    attrs h3 = [a \<mapsto> \<lparr>attr_identity = None\<rparr>]"
proof -
  let ?r = "reset (h1\<lparr>errno := EINVAL\<rparr>)"
  note defs = h1_def a_def set_log_format_init_done_def set_init_done_def
  have c: "cstr (cblock s) = Some s" using s(1) by simp
  have 1: "mdclog_attr_set_ident (Some a) (Some (cblock s)) h1 = Some (- 1, h1\<lparr>errno := EINVAL\<rparr>)"
    using bad_ident_eq [OF c s(2)] s(3) by (auto simp: mdclog_attr_set_ident_def valid_ident_def)
  have sl: "same_lib (reset h) ?r" by (cases h) (simp add: same_lib_def defs)
  have p: "init_done (configuration ?r) = 0" "cstr (progname ?r) = Some pn" "2 * length pn + 1 < SIZE_MOD" "length pn \<le> INT_MAX"
    "attr_ident (Some a) ?r = Some None" "attrs ?r = [a \<mapsto> \<lparr>attr_identity = None\<rparr>]"
    using env by (simp_all add: api_env_def attr_ident_def defs)
  have "lib_all ?r i C" "tidy ?r C X" using lib_all_cong [OF rep(1), of ?r] rep(2) by (simp_all add: defs)
  from init_unnamed_all [OF this p(1-5)] show ?thesis using 1 sl same_lib_trans p(6) by (auto simp: mdclog_init_def)
qed

lemma attr_session:
  assumes rep: "lib_all h i C" "tidy h C X" and env: "api_env retry pn fds h" "attrs h = Map.empty" and s: "NUL \<notin> set s" "length s \<le> INT_MAX"
  defines "a \<equiv> brk h"
  shows "\<exists>h1 r h2 h3. mdclog_attr_init h = (0, Some a, h1) \<and> mdclog_attr_set_ident (Some a) (Some (cblock s)) h1 = Some (r, h2) \<and>
    mdclog_init (Some a) h2 = Some (0, h3) \<and> lib_all h3 (Some (if valid_ident s then s else escape_str pn)) C \<and> tidy h3 C X \<and>
    key_created h3 \<and> init_done (configuration h3) \<noteq> 0 \<and> same_lib (reset h) h3 \<and> attrs h3 = [a \<mapsto> \<lparr>attr_identity = None\<rparr>]"
proof -
  have "mdclog_attr_init h = (0, Some (brk h), h\<lparr>brk := Suc (brk h), attrs := [brk h \<mapsto> \<lparr>attr_identity = None\<rparr>]\<rparr>)"
    using lib_all_malloc [OF rep(1)] env(2) by (simp add: mdclog_attr_init_def new_addr_def)
  then show ?thesis unfolding a_def
    using attr_session_named [OF rep s(1)] attr_session_unnamed [OF rep env(1) s] by (cases "valid_ident s") auto
qed

lemma set_ctx_level: "(set_ctx t ps a)\<lparr>a_level := l\<rparr> = set_ctx t ps (a\<lparr>a_level := l\<rparr>)"
    "(set_ctx t ps a)\<lparr>a_watch := ws\<rparr> = set_ctx t ps (a\<lparr>a_watch := ws\<rparr>)"
  by (cases a; simp add: set_ctx_def)+

text \<open>A new monitor, with the name of the file in the new block \<open>m\<close>.\<close>

lemma api_rep_monitor:
  assumes "api_at A retry pn fds h a" "conf_name h = Some f" "brk h \<le> m"
  shows "api_at A retry pn fds (h\<lparr>brk := Suc m, strs := (strs h)(m \<mapsto> cblock f), current_level := l, monitors := monitors h @ [Some m]\<rparr>)
    (a\<lparr>a_level := l, a_watch := a_watch a @ [Starting]\<rparr>)" (is "api_at A _ _ _ ?h ?a")
proof -
  from assms(1) obtain C X where r: "proc_rep (conf_name h) h (a_ident a) C X (a_watch a)" "a_ctx a = (\<lambda>t. pairs (C t))" "lib_all h (a_ident a) C" "tidy h C X"
    by (rule api_repE)
  have m: "m \<notin> dom X" using lib_all_fresh [OF r(3,4) assms(3)] by simp
  have "lib_all ?h (a_ident a) C" "tidy ?h C (X(m \<mapsto> cblock f))" by (rule lib_all_new_block [OF r(3,4) _ assms(3)]; simp)+
  moreover have "watch_rep (Some f) ?h (X(m \<mapsto> cblock f)) (a_watch a @ [Starting])"
    using proc_repD(3) [OF r(1)] assms(2) m by (intro watch_rep_start) simp_all
  moreover have n: "conf_name ?h = Some f" using assms(2) by (simp add: conf_name_def)
  ultimately have "proc_rep (conf_name ?h) ?h (a_ident a) C (X(m \<mapsto> cblock f)) (a_watch a @ [Starting])"
    using proc_repD(4) [OF r(1)] assms(2) by (simp add: proc_rep_def)
  moreover have "api_env retry pn fds ?h" by (rule api_env_cong [OF api_repD(1) [OF assms(1)]]) simp_all
  moreover have "conf_rep ?h (a_conf a)" using api_repD(2) [OF assms(1)] conf_rep_cong [of ?h h] by simp
  ultimately show ?thesis unfolding api_at_def
    by (intro conjI exI [of _ C] exI [of _ "X(m \<mapsto> cblock f)"]) (use api_repD [OF assms(1)] api_rep_used [OF assms(1)] r(2) in simp_all)
qed

lemma conf_name_conf: "conf_rep h conf \<Longrightarrow> conf_name h = None \<longleftrightarrow> conf = None"
  by (auto simp: conf_rep_def conf_name_def split: option.splits)

text \<open>\<open>mdclog_format_initialize\<close> behind the loop over the fields, whatever the configuration is.\<close>

lemma format_rest_rep:
  assumes "api_at A retry pn fds h a" "a_init a"
  shows "\<exists>h'. format_rest t mon h = Some (0, h') \<and> api_at A retry pn fds h' (set_ctx t (put_pid h (a_ctx a t))
    (a\<lparr>a_level := configured a, a_watch := a_watch a @ (if mon \<noteq> 0 \<and> a_conf a \<noteq> None then [Starting] else [])\<rparr>))"
proof -
  from assms(1) obtain C X where r: "proc_rep (conf_name h) h (a_ident a) C X (a_watch a)" "a_ctx a = (\<lambda>t. pairs (C t))" "lib_all h (a_ident a) C" "tidy h C X"
    by (rule api_repE)
  note d = api_repD [OF assms(1)]
  have key: "key_created h" "init_done (configuration h) \<noteq> 0" using d(6,7) assms(2) by simp_all
  have e: "0 \<le> getpid_val h" "getpid_val h \<le> int INT_MAX" using d(1) by (simp_all add: api_env_def)
  have F: "api_at A retry pn fds h' (set_ctx t (put_pid h (a_ctx a t)) a)"
    if "mdc_rep h' t cs'" "frame t h (C t) h' cs'" "pairs cs' = put_pid h (pairs (C t))" for h' cs'
    using api_rep_frame [OF assms(1) key(1) r(1,2) that(1,2)] that(3) r(2) by simp
  show ?thesis
  proof (cases "mon \<noteq> 0 \<and> a_conf a \<noteq> None")
    case True
    then obtain sev where sev: "a_conf a = Some sev" by blast
    then obtain f where f: "conf_name h = Some f" using conf_name_conf [OF d(2)] by auto
    have w: "lstat_ret h f = 0" "pthread_create_ret h = 0" using d(1) f by (simp_all add: api_env_def)
    obtain h' cs' n where g: "format_rest t mon h = Some (0, h'\<lparr>brk := Suc n, strs := (strs h')(n \<mapsto> cblock f), current_level := sev, monitors := monitors h @ [Some n]\<rparr>)"
      "brk h' \<le> n" "mdc_rep h' t cs'" "frame t h (C t) h' cs'" "pairs cs' = put_pid h (pairs (C t))"
      using format_rest_watch [OF lib_all_rep [OF r(3) key] e d(2) [unfolded sev] f [unfolded conf_name_def], where t = t and mon = mon] True w by blast
    have s: "monitors h' = monitors h" "conf_name h' = Some f" using g(4) f by (cases h; cases h'; simp add: frame_def conf_name_def)+
    from api_rep_monitor [OF F [OF g(3-5)] s(2) g(2), of sev] show ?thesis
      using g(1) True sev unfolding s(1) set_ctx_level by (simp add: configured_def set_ctx_def [of t _ a])
  next
    case False
    obtain h' cs' n where g: "format_rest t mon h = Some (0, h'\<lparr>brk := n, current_level := configured a\<rparr>)" "brk h' \<le> n" "mdc_rep h' t cs'"
      "frame t h (C t) h' cs'" "pairs cs' = put_pid h (pairs (C t))"
      using format_rest_conf [OF lib_all_rep [OF r(3) key] e d(2), where t = t and mon = mon] False unfolding d(4) configured_def by blast
    from api_rep_level [OF F [OF g(3-5)] g(2), of "configured a"] show ?thesis using g(1) False unfolding set_ctx_level by auto
  qed
qed

text \<open>The loop over the fields. In an initialised library it works on the context of its thread; else the
  first access to the context initialises the library, and may find a copy of the first value in the
  heap.\<close>

lemma fields_rep:
  assumes "api_at A retry pn fds h a" "a_init a" "list_all plain_key fs"
  shows "\<exists>h'. fields_loop t fs 0 h = Some (0, h') \<and> api_at A retry pn fds h' (set_ctx t (fold (put_field h) fs (a_ctx a t)) a) \<and>
    mdclog.more h' = mdclog.more h"
proof -
  from assms(1) obtain C X where r: "proc_rep (conf_name h) h (a_ident a) C X (a_watch a)" "a_ctx a = (\<lambda>t. pairs (C t))" "lib_all h (a_ident a) C" "tidy h C X"
    by (rule api_repE)
  have key: "key_created h" "init_done (configuration h) \<noteq> 0" using api_repD(6,7) [OF assms(1)] assms(2) by simp_all
  have "env_strings h" using api_repD(1) [OF assms(1)] by (simp add: api_env_def)
  from fields_loop_ok [OF lib_all_rep [OF r(3) key] assms(3) this, of t] obtain h' cs' where
    f: "fields_loop t fs 0 h = Some (0, h')" "lib_rep h' t (a_ident a) cs'" "frame t h (C t) h' cs'" "pairs cs' = fold (put_field h) fs (pairs (C t))" by blast
  have "mdclog.more h' = mdclog.more h" using f(3) by (cases h; cases h'; simp add: frame_def)
  moreover have "mdc_rep h' t cs'" using f(2) by (simp add: lib_rep_def)
  from api_rep_frame [OF assms(1) key(1) r(1,2) this f(3)] have "api_at A retry pn fds h' (set_ctx t (fold (put_field h) fs (a_ctx a t)) a)"
    using f(4) r(2) by simp
  ultimately show ?thesis using f(1) by blast
qed

lemma first_field:
  assumes "api_at A retry pn fds h a" "\<not> a_init a" "plain_key f" "getenv_val h f = Some b"
  shows "\<exists>h'. fields_loop t (f # fs) 0 h = fields_loop t fs 0 h' \<and> api_at A retry pn fds h' (set_ctx t (put_field h f (a_ctx a t)) (started pn a)) \<and>
    mdclog.more h' = mdclog.more h"
proof -
  from assms(1) obtain C X where r: "proc_rep (conf_name h) h (a_ident a) C X (a_watch a)" "a_ctx a = (\<lambda>t. pairs (C t))" "lib_all h (a_ident a) C" "tidy h C X"
    by (rule api_repE)
  note d = api_repD [OF assms(1)]
  obtain v where v: "cstr b = Some v" "c_string v" using d(1) assms(4) unfolding api_env_def env_strings_def by blast
  define x where "x = brk h"
  define g where "g = new_block (cblock v) h"
  note defs = g_def new_block_def x_def
  have x: "x \<notin> dom X" using lib_all_fresh [OF r(3,4), of x] by (simp add: x_def)
  have all: "lib_all g (a_ident a) C" "tidy g C (X(x \<mapsto> cblock v))" by (rule lib_all_new_block [OF r(3,4), of g x "cblock v"]; simp add: defs)+
  have p: "init_done (configuration g) = 0" "cstr (progname g) = Some pn" "2 * length pn + 1 < SIZE_MOD" "length pn \<le> INT_MAX"
    "attr_ident None g = Some None" using d(1,6) assms(2) by (simp_all add: api_env_def attr_ident_def defs)
  obtain g1 where g1: "init_library None g = Some g1" "lib_all g1 (Some (escape_str pn)) C" "tidy g1 C (X(x \<mapsto> cblock v))" "key_created g1"
    "init_done (configuration g1) \<noteq> 0" "same_lib g g1" "attrs g1 = attrs g" using init_unnamed_all [OF all p] by blast
  obtain g2 cs where u: "update_mdclog_array t (cblock f) (cblock v) g1 = Some (0, g2)" "lib_rep g2 t (Some (escape_str pn)) cs" "frame t g1 (C t) g2 cs"
    "pairs cs = put_spec f (escape_str v) (rm_spec f (pairs (C t)))"
    using update_mdclog_array_ok [OF lib_all_rep [OF g1(2,4,5)] assms(3) v(2) c_stringD(1) [OF v(2)]] by blast
  have rep: "mdc_rep g2 t cs" using u(2) by (simp add: lib_rep_def)
  note all3 = lib_all_release [OF lib_all_frame [OF g1(2,4) rep u(3)] tidy_frame [OF g1(3) u(3)] x]
  have "read_env_param (Some f) h = Some (Some x, g)" using assms(4) v(1) lib_all_malloc [OF r(3)] by (simp add: read_env_param_def defs)
  moreover have "init_library None g1 = Some g1" using g1(5) by (simp add: init_library_def)
  then have "update_mdclog_array t (cblock f) (cblock v) g = Some (0, g2)" using u(1) g1(1) by (simp add: update_mdclog_array_def mdclog_mdc_get_def)
  ultimately have loop: "fields_loop t (f # fs) 0 h = fields_loop t fs 0 (release x g2)" using all3(1) by (simp add: defs)
  have more: "mdclog.more (release x g2) = mdclog.more h"
  proof -
    have "mdclog.more g2 = mdclog.more g1" using u(3) by (cases g1; cases g2; simp add: frame_def)
    then show ?thesis using g1(6) by (cases g2; cases h) (simp add: same_lib_def release_def defs)
  qed
  note m = frame_lib [OF u(3)]
  have s: "tls g1 = tls h" "current_level g1 = a_level a" "out g1 = a_out a" "write_answers g1 = write_answers h" "progname g1 = progname h"
    "log_format_init_done (configuration g1) = log_format_init_done (configuration h)" "attrs g1 = A"
    using g1(6,7) d(3-5) by (simp_all add: same_lib_def defs)
  have used: "tls g2 u \<noteq> None \<Longrightarrow> u \<in> insert t (a_used a)" for u
    using u(3) s(1) api_rep_used [OF assms(1), of u] by (auto simp: frame_def)
  have "pairs cs = put_field h f (a_ctx a t)" unfolding u(4) put_field_def using assms(4) v(1) r(2) by (simp add: env_value_def)
  then have ctx: "(\<lambda>u. pairs ((C(t := cs)) u)) = (a_ctx a)(t := put_field h f (a_ctx a t))" using r(2) by (auto simp: fun_eq_iff)
  have "api_at A retry pn fds (release x g2) (set_ctx t (put_field h f (a_ctx a t)) (started pn a))"
    by (rule api_rep_step [OF assms(1) r(1) _ all3(3) more])
      (use all3(2) m s used ctx assms(2) g1(4,5) d(8) mdc_repD(2) [OF rep] in \<open>simp_all add: release_def set_ctx_def started_def\<close>)
  then show ?thesis using loop more by blast
qed

lemma set_ctx_twice [simp]: "set_ctx t ps (set_ctx t qs a) = set_ctx t ps a"
  by (simp add: set_ctx_def)

lemma ctx_set_ctx [simp]: "a_ctx (set_ctx t ps a) t = ps" "a_init (set_ctx t ps a) = a_init a"
  by (simp_all add: set_ctx_def)

lemma put_field_cong: "getenv_val h' = getenv_val h \<Longrightarrow> put_field h' = put_field h"
  by (simp add: put_field_def env_value_def fun_eq_iff del: put_spec.simps)

lemma plain_not_special: "plain_key f \<Longrightarrow> mdclog_internal_contains_special_characters (cblock f) = Some False"
  using special_iff [of f] by (simp add: plain_key_def)

lemma fields_started:
  assumes "api_at A retry pn fds h a" "list_all plain_key (f # fs)"
  shows "\<exists>h'. fields_loop t (f # fs) 0 h = Some (0, h') \<and> api_at A retry pn fds h' (set_ctx t (fold (put_field h) (f # fs) (a_ctx a t)) (started pn a)) \<and>
    mdclog.more h' = mdclog.more h"
proof (cases "a_init a \<or> getenv_val h f = None")
  case True
  obtain h1 where h1: "init_library None h = Some h1" "init_library None h1 = Some h1" "api_at A retry pn fds h1 (started pn a)" "mdclog.more h1 = mdclog.more h"
    using api_started [OF assms(1)] by blast
  have "fields_loop t (f # fs) 0 h = fields_loop t (f # fs) 0 h1"
  proof (cases "a_init a")
    case True
    then show ?thesis using h1(1) api_repD(6) [OF assms(1)] by (simp add: init_library_def)
  next
    case False
    then have "getenv_val h f = None" "getenv_val h1 f = None" using \<open>a_init a \<or> getenv_val h f = None\<close> env_more_eqD(1) [OF h1(4)] by simp_all
    moreover have "mdclog_mdc_add t (Some (cblock f)) (Some v) h = mdclog_mdc_add t (Some (cblock f)) (Some v) h1" for v
      using h1(1,2) plain_not_special [of f] assms(2) by (simp add: mdclog_mdc_add_def)
    ultimately show ?thesis by (simp add: read_env_param_def)
  qed
  then show ?thesis using fields_rep [OF h1(3) a_init_started assms(2), of t] h1(4) put_field_cong [OF env_more_eqD(1) [OF h1(4)]] by simp
next
  case False
  then obtain b where "\<not> a_init a" "getenv_val h f = Some b" "plain_key f" using assms(2) by auto
  then obtain h1 where h1: "fields_loop t (f # fs) 0 h = fields_loop t fs 0 h1" "mdclog.more h1 = mdclog.more h"
    "api_at A retry pn fds h1 (set_ctx t (put_field h f (a_ctx a t)) (started pn a))" using first_field [OF assms(1)] by blast
  have "a_init (set_ctx t (put_field h f (a_ctx a t)) (started pn a))" "list_all plain_key fs" using assms(2) by simp_all
  from fields_rep [OF h1(3) this, of t] show ?thesis using h1(1,2) put_field_cong [OF env_more_eqD(1) [OF h1(2)]] by simp
qed

lemma format_rep:
  assumes "api_at A retry pn fds h a"
  shows "\<exists>h'. mdclog_format_initialize t mon h = Some (0, h') \<and> api_at A retry pn fds h' (format_spec pn fds t mon a)"
proof (cases "a_flag a")
  case True
  then show ?thesis using assms api_repD(8) [OF assms] by (simp add: mdclog_format_initialize_def format_spec_def)
next
  case False
  obtain f fs where L: "LOGFIELDS = f # fs" by (auto simp: LOGFIELDS_def)
  let ?ps = "fold (put_field h) LOGFIELDS (a_ctx a t)"
  obtain h1 where h1: "fields_loop t LOGFIELDS 0 h = Some (0, h1)" "api_at A retry pn fds h1 (set_ctx t ?ps (started pn a))" "mdclog.more h1 = mdclog.more h"
    using fields_started [OF assms, of f fs t] plain_keys(1) unfolding L by blast
  have "log_format_init_done (configuration h) = 0" using False api_repD(8) [OF assms] by simp
  note rest = format_initialize_rest [OF this h1(1), of mon]
  have "fds = init_pairs h" using api_repD(1) [OF assms] by (simp add: api_env_def)
  then have fds: "put_pid h1 ?ps = fds (a_ctx a t)" using env_more_eqD(2) [OF h1(3)] by (simp add: init_pairs_def put_pid_def del: put_spec.simps)
  have "configured (set_ctx t ?ps (started pn a)) = configured a" by (simp add: configured_def started_def set_ctx_def cong: option.case_cong)
  moreover have "a_watch (set_ctx t ?ps (started pn a)) = a_watch a" "a_conf (set_ctx t ?ps (started pn a)) = a_conf a"
    by (simp_all add: started_def set_ctx_def)
  ultimately show ?thesis using format_rest_rep [OF h1(2), of t mon] rest fds False
    by (simp add: format_spec_def set_ctx_level flip: set_ctx_level)
qed

lemma call_format:
  assumes "api_rep retry pn fds h a" shows "implements retry stack pn fds (Format t mon) h a"
  using format_rep [OF assms, of t mon] by (auto simp: implements_def)


lemma call_setup:
  assumes "api_rep retry pn fds h a" "call_ok (Setup t s mon)" shows "implements retry stack pn fds (Setup t s mon) h a"
proof -
  from assms(1) obtain C X where r: "proc_rep (conf_name h) h (a_ident a) C X (a_watch a)" "a_ctx a = (\<lambda>t. pairs (C t))" "lib_all h (a_ident a) C" "tidy h C X"
    by (rule api_repE)
  let ?i = "if valid_ident s then s else escape_str pn" and ?o = "brk h"
  let ?a = "a\<lparr>a_init := True, a_ident := Some ?i, a_flag := False\<rparr>"
  have s: "NUL \<notin> set s" "length s \<le> INT_MAX" using assms(2) by simp_all
  obtain h1 x h2 h3 where u: "mdclog_attr_init h = (0, Some ?o, h1)" "mdclog_attr_set_ident (Some ?o) (Some (cblock s)) h1 = Some (x, h2)"
    "mdclog_init (Some ?o) h2 = Some (0, h3)" "lib_all h3 (Some ?i) C" "tidy h3 C X" "key_created h3" "init_done (configuration h3) \<noteq> 0"
    "same_lib (reset h) h3" "attrs h3 = [?o \<mapsto> \<lparr>attr_identity = None\<rparr>]" using attr_session [OF r(3,4) api_repD(1,3) [OF assms(1)] s] by blast
  have "api_at (attrs h3) retry pn fds h3 ?a" using api_rep_identity [OF assms(1) r(1,2) u(8) _ u(4-7) refl] by simp
  from format_rep [OF this, of t mon] obtain h4 where h4: "mdclog_format_initialize t mon h3 = Some (0, h4)"
    "api_at (attrs h3) retry pn fds h4 (format_spec pn fds t mon ?a)" (is "api_at _ _ _ _ _ ?b") by blast
  let ?h5 = "h4\<lparr>attrs := Map.empty\<rparr>"
  have "mdclog_attr_destroy (Some ?o) h4 = Some ?h5" using api_repD(3) [OF h4(2)] u(9) by (simp add: mdclog_attr_destroy_def)
  then have "api_setup t s mon h = Some (Ret 0, ?h5)" using u(1-3) h4(1) by (simp add: api_setup_def)
  moreover have m: "mdclog.more ?h5 = mdclog.more h4" by (cases h4) simp
  have "api_rep retry pn fds ?h5 (?b\<lparr>a_level := current_level ?h5, a_out := out ?h5\<rparr>)" by (rule api_rep_cong [OF h4(2)]) (simp_all add: m)
  then have "api_rep retry pn fds ?h5 ?b" using api_repD(4,5) [OF h4(2)] by simp
  ultimately show ?thesis by (simp add: implements_def)
qed

text \<open>The turns of the monitors.\<close>

lemma api_rep_turn:
  assumes "api_rep retry pn fds h a" "proc_rep (conf_name h) h' (a_ident a) C X ws" "a_ctx a = (\<lambda>t. pairs (C t))"
    "getenv_val h' = getenv_val h" "getpid_val h' = getpid_val h" "lstat_ret h' = lstat_ret h" "pthread_create_ret h' = pthread_create_ret h" "files h' = files h"
    "write_answers h' = write_answers h" "progname h' = progname h" "attrs h' = attrs h" "tls h' = tls h" "key_created h' = key_created h"
    "current_level h' = current_level h" "out h' = out h" "init_done (configuration h') = init_done (configuration h)"
  shows "api_rep retry pn fds h' (a\<lparr>a_flag := log_format_init_done (configuration h') \<noteq> 0, a_watch := ws\<rparr>)"
proof -
  note d = api_repD [OF assms(1)]
  have "api_env retry pn fds h'" by (rule api_env_cong [OF d(1) assms(9,10,4-7)])
  moreover have "conf_rep h' (a_conf a)" using d(2) conf_rep_cong [OF assms(4,8)] by simp
  moreover have "conf_name h' = conf_name h" by (simp add: conf_name_def assms(4))
  ultimately show ?thesis using assms(2,3) unfolding api_at_def
    by (intro conjI exI [of _ C] exI [of _ X]) (use d api_rep_used [OF assms(1)] assms(11-16) in simp_all)
qed

text \<open>A monitor that begins, one that goes through its loop and one that leaves it.\<close>

lemma call_watch_begins:
  assumes "api_rep retry pn fds h a" "i < length (a_watch a)" "a_watch a ! i = Starting" shows "implements retry stack pn fds (Watch i ifd wfd ev) h a"
proof -
  from assms(1) obtain C X where r: "proc_rep (conf_name h) h (a_ident a) C X (a_watch a)" "a_ctx a = (\<lambda>t. pairs (C t))" by (rule api_repE)
  note T = api_rep_turn [OF assms(1) _ r(2)] and defs = set_stage_def set_log_format_init_done_def
  show ?thesis
  proof (cases "ifd \<ge> 0 \<and> wfd \<ge> 0")
    case True
    then obtain st n S Y where t: "watch_turn i ifd wfd ev h = Some (set_stage i st (set_log_format_init_done 1 (h\<lparr>brk := n, strs := S\<rparr>)))" (is "_ = Some ?h")
      "proc_rep (conf_name h) (set_stage i st (set_log_format_init_done 1 (h\<lparr>brk := n, strs := S\<rparr>))) (a_ident a) C Y ((a_watch a)[i := Watching])"
      using turn_enter [OF r(1) assms(2,3)] by blast
    have "api_rep retry pn fds ?h (a\<lparr>a_flag := log_format_init_done (configuration ?h) \<noteq> 0, a_watch := (a_watch a)[i := Watching]\<rparr>)"
      by (rule T [OF t(2)]) (simp_all add: defs)
    then show ?thesis using t(1) True assms(2,3) by (simp add: implements_def watch_spec_def defs)
  next
    case False
    then obtain n where t: "watch_turn i ifd wfd ev h = Some (set_stage i Ended (h\<lparr>brk := n\<rparr>))" (is "_ = Some ?h")
      "proc_rep (conf_name h) (set_stage i Ended (h\<lparr>brk := n\<rparr>)) (a_ident a) C X ((a_watch a)[i := Over])"
      using turn_fails [OF r(1) assms(2,3)] by blast
    have "api_rep retry pn fds ?h (a\<lparr>a_flag := log_format_init_done (configuration ?h) \<noteq> 0, a_watch := (a_watch a)[i := Over]\<rparr>)"
      by (rule T [OF t(2)]) (simp_all add: defs)
    moreover have "log_format_init_done (configuration ?h) \<noteq> 0 \<longleftrightarrow> a_flag a" using api_repD(8) [OF assms(1)] by (simp add: defs)
    ultimately show ?thesis using t(1) False assms(2,3) by (auto simp: implements_def watch_spec_def)
  qed
qed

lemma call_watch_goes_on:
  assumes "api_rep retry pn fds h a" "i < length (a_watch a)" "a_watch a ! i = Watching" "a_flag a"
  shows "implements retry stack pn fds (Watch i ifd wfd ev) h a"
proof -
  from assms(1) obtain C X where r: "proc_rep (conf_name h) h (a_ident a) C X (a_watch a)" by (rule api_repE)
  note d = api_repD [OF assms(1)]
  have flag: "log_format_init_done (configuration h) \<noteq> 0" using d(8) assms(4) by simp
  have "conf_name h \<noteq> None" using watch_rep_name [OF proc_repD(3) [OF r] assms(2)] by auto
  then obtain f ls l v where c: "conf_name h = Some f" "files h f = Some (lines_text ls)" "list_all config_line ls" "find level_line ls = Some l"
    "line_value l = Some v" "a_conf a = Some (level_of v)" using d(2) by (auto simp: conf_rep_def conf_name_def split: option.splits)
  have "config_line l" using c(3,4) by (auto simp: find_Some_iff list_all_iff)
  then have "NUL \<notin> set v" by (rule line_value_no_NUL [OF _ c(5)])
  moreover have "parse_lines (lines_text ls) = Some (Some (Some v))" using parse_lines_text [OF c(3), of "[]"] c(4,5) by simp
  ultimately have t: "watch_turn i ifd wfd ev h = Some (if ev = Event then h\<lparr>brk := Suc (brk h), current_level := level_of v\<rparr> else h)"
    using turn_round [OF r assms(2,3) flag, of "lines_text ls" v] c(1,2) by auto
  have "api_rep retry pn fds (h\<lparr>brk := Suc (brk h), current_level := level_of v\<rparr>) (a\<lparr>a_level := level_of v\<rparr>)"
    by (rule api_rep_level [OF assms(1)]) simp
  then show ?thesis using t assms c(6) by (simp add: implements_def watch_spec_def configured_def)
qed

lemma call_watch_leaves:
  assumes "api_rep retry pn fds h a" "i < length (a_watch a)" "a_watch a ! i = Watching" "\<not> a_flag a"
  shows "implements retry stack pn fds (Watch i ifd wfd ev) h a"
proof -
  from assms(1) obtain C X where r: "proc_rep (conf_name h) h (a_ident a) C X (a_watch a)" "a_ctx a = (\<lambda>t. pairs (C t))" by (rule api_repE)
  have "log_format_init_done (configuration h) = 0" using api_repD(8) [OF assms(1)] assms(4) by simp
  then obtain S Y where t: "watch_turn i ifd wfd ev h = Some (set_stage i Ended (h\<lparr>strs := S\<rparr>))" (is "_ = Some ?h")
    "proc_rep (conf_name h) (set_stage i Ended (h\<lparr>strs := S\<rparr>)) (a_ident a) C Y ((a_watch a)[i := Over])"
    using turn_leaves [OF r(1) assms(2,3)] by blast
  have "api_rep retry pn fds ?h (a\<lparr>a_flag := log_format_init_done (configuration ?h) \<noteq> 0, a_watch := (a_watch a)[i := Over]\<rparr>)"
    by (rule api_rep_turn [OF assms(1) t(2) r(2)]) (simp_all add: set_stage_def)
  moreover have "log_format_init_done (configuration ?h) \<noteq> 0 \<longleftrightarrow> a_flag a" using api_repD(8) [OF assms(1)] by (simp add: set_stage_def)
  moreover have "a\<lparr>a_flag := False\<rparr> = a" using assms(4) by (cases a) simp
  ultimately show ?thesis using t(1) assms(2-4) by (simp add: implements_def watch_spec_def)
qed

lemma call_watch:
  assumes "api_rep retry pn fds h a" shows "implements retry stack pn fds (Watch i ifd wfd ev) h a"
proof (cases "i < length (a_watch a) \<longrightarrow> a_watch a ! i = Over")
  case True
  from assms obtain C X where r: "proc_rep (conf_name h) h (a_ident a) C X (a_watch a)" by (rule api_repE)
  have "watch_spec i ok ev a = a" for ok using True by (auto simp: watch_spec_def)
  then show ?thesis using turn_idle [OF proc_repD(3) [OF r] True] assms by (simp add: implements_def)
next
  case False
  then show ?thesis using call_watch_begins [OF assms] call_watch_goes_on [OF assms] call_watch_leaves [OF assms] by (cases "a_watch a ! i"; cases "a_flag a") simp_all
qed

text \<open>Another content of the configuration file.\<close>

lemma call_file_change:
  assumes "api_rep retry pn fds h a" "call_ok (FileChange ls)" shows "implements retry stack pn fds (FileChange ls) h a"
proof -
  note d = api_repD [OF assms(1)]
  show ?thesis
  proof (cases "conf_name h")
    case None
    then have a: "a_conf a = None" using conf_name_conf [OF d(2)] by simp
    then have e: "a\<lparr>a_conf := None\<rparr> = a" by (cases a) simp
    have "api_rep retry pn fds h (a\<lparr>a_conf := None\<rparr>)" unfolding e by (rule assms(1))
    then show ?thesis using None a by (simp add: implements_def file_change_def)
  next
    case (Some f)
    let ?h = "h\<lparr>files := (files h)(f \<mapsto> lines_text ls)\<rparr>"
    obtain l v where l: "find level_line ls = Some l" "line_value l = Some v" "list_all config_line ls" "file_level ls = Some (level_of v)"
      using assms(2) by (auto simp: file_level_def Option.bind_eq_Some_conv)
    from assms(1) obtain C X where r: "proc_rep (conf_name h) h (a_ident a) C X (a_watch a)" "a_ctx a = (\<lambda>t. pairs (C t))" "lib_all h (a_ident a) C" "tidy h C X"
      by (rule api_repE)
    have "lib_all ?h (a_ident a) C" "tidy ?h C X" using lib_all_cong [OF r(3), of ?h] r(4) by simp_all
    moreover have "watch_rep (conf_name h) ?h X (a_watch a)" by (rule watch_rep_cong [OF proc_repD(3) [OF r(1)]]) simp_all
    moreover have n: "conf_name ?h = conf_name h" by (simp add: conf_name_def)
    ultimately have "proc_rep (conf_name ?h) ?h (a_ident a) C X (a_watch a)" using proc_repD(4) [OF r(1)] by (simp add: proc_rep_def)
    moreover have "api_env retry pn fds ?h" by (rule api_env_cong [OF d(1)]) simp_all
    moreover obtain b where b: "getenv_val h LOG_FILE_CONFIG_MAP = Some b" "cstr b = Some f"
      using Some by (auto simp: conf_name_def Option.bind_eq_Some_conv)
    have "getenv_val ?h LOG_FILE_CONFIG_MAP = Some b" "files ?h f = Some (lines_text ls)" using b by simp_all
    then have "conf_rep ?h (Some (level_of v))" unfolding conf_rep_def using b(2) l(1-3) by (simp only: option.case) blast
    ultimately have "api_rep retry pn fds ?h (a\<lparr>a_conf := Some (level_of v)\<rparr>)" unfolding api_at_def
      by (intro conjI exI [of _ C] exI [of _ X]) (use d api_rep_used [OF assms(1)] r(2) in simp_all)
    moreover have "a_conf a \<noteq> None" using conf_name_conf [OF d(2)] Some by simp
    ultimately show ?thesis using Some l(4) by (auto simp: implements_def file_change_def)
  qed
qed

end
