(* ===== verification/Api_Refinement.thy ===== *)
theory Api_Refinement
  imports Api
begin

text \<open>
  The library as a whole implements its specification: any sequence of calls by any threads, of turns of
  the monitors and of changes of the configuration file runs without a fault, returns what the
  specification returns and writes the lines it asks for, and leaves nothing allocated but the
  contexts, the identity and the names the monitors hold.
\<close>

section \<open>Runs\<close>

lemma call_implements:
  assumes "api_rep retry pn fds h a" "call_ok op" "length stack = PIPE_BUF" shows "implements retry stack pn fds op h a"
  using assms
  by (cases op) (simp_all add: call_log call_set_level call_get_level call_add call_get call_remove call_clean call_init call_format call_setup call_exit call_lib_clean
    call_watch call_file_change)

text \<open>A run collects the results of its calls.\<close>

definition run_call :: "(int \<Rightarrow> int \<Rightarrow> bool) \<Rightarrow> block \<Rightarrow> api_op \<Rightarrow> api_res list \<times> 'a process_scheme \<Rightarrow> (api_res list \<times> 'a process_scheme) option" where
  "run_call retry stack op c = do { (r, h1) \<leftarrow> api_call retry stack op (snd c); Some (fst c @ [r], h1) }"

definition run_spec ::
  "string \<Rightarrow> ((string \<times> string) list \<Rightarrow> (string \<times> string) list) \<Rightarrow> api_op \<Rightarrow> api_res list \<times> logger \<Rightarrow> api_res list \<times> logger" where
  "run_spec pn fds op c = (fst c @ [fst (api_spec pn fds op (snd c))], snd (api_spec pn fds op (snd c)))"

definition run_rep ::
  "(int \<Rightarrow> int \<Rightarrow> bool) \<Rightarrow> block \<Rightarrow> string \<Rightarrow> ((string \<times> string) list \<Rightarrow> (string \<times> string) list) \<Rightarrow>
    api_res list \<times> 'a process_scheme \<Rightarrow> api_res list \<times> logger \<Rightarrow> bool" where
  "run_rep retry stack pn fds c a \<longleftrightarrow> fst c = fst a \<and> api_rep retry pn fds (snd c) (snd a) \<and> length stack = PIPE_BUF"

interpretation api: simulation "run_rep retry stack pn fds" "run_call retry stack" "run_spec pn fds" call_ok
proof unfold_locales
  fix c :: "api_res list \<times> 'a process_scheme" and a op
  assume r: "run_rep retry stack pn fds c a" "call_ok op"
  then have "implements retry stack pn fds op (snd c) (snd a)" by (intro call_implements) (simp_all add: run_rep_def)
  with r(1) show "\<exists>c'. run_call retry stack op c = Some c' \<and> run_rep retry stack pn fds c' (run_spec pn fds op a)"
    by (auto simp: implements_def run_call_def run_spec_def run_rep_def)
qed

definition api_run :: "(int \<Rightarrow> int \<Rightarrow> bool) \<Rightarrow> block \<Rightarrow> api_op list \<Rightarrow> 'a process_scheme \<Rightarrow> (api_res list \<times> 'a process_scheme) option" where
  "api_run retry stack ops h = crun (run_call retry stack) ops ([], h)"

definition spec_run ::
  "string \<Rightarrow> ((string \<times> string) list \<Rightarrow> (string \<times> string) list) \<Rightarrow> api_op list \<Rightarrow> logger \<Rightarrow> api_res list \<times> logger" where
  "spec_run pn fds ops a = fold (run_spec pn fds) ops ([], a)"

lemma api_run_ok:
  assumes "api_rep retry pn fds h a" "length stack = PIPE_BUF" "list_all call_ok ops"
  shows "\<exists>h'. api_run retry stack ops h = Some (fst (spec_run pn fds ops a), h') \<and> api_rep retry pn fds h' (snd (spec_run pn fds ops a))"
proof -
  have "run_rep retry stack pn fds ([], h) ([], a)" using assms(1,2) by (simp add: run_rep_def)
  from api.sim_run [OF this assms(3)] show ?thesis by (auto simp: api_run_def spec_run_def run_rep_def)
qed

section \<open>What is written can be read\<close>

text \<open>A context whose keys need no escaping and whose values are escaped.\<close>

definition ctx_ok :: "(string \<times> string) list \<Rightarrow> bool" where
  "ctx_ok ps \<longleftrightarrow> list_all (\<lambda>(k, v). escape_str k = k \<and> v \<in> range escape_str) ps"

definition readable :: "string \<Rightarrow> bool" where
  "readable l \<longleftrightarrow> (\<exists>line ms. l = line @ [NEWLINE] \<and> NEWLINE \<notin> set line \<and> length l \<le> PIPE_BUF \<and> read_entry line = Some ms)"

definition logger_ok :: "logger \<Rightarrow> bool" where
  "logger_ok a \<longleftrightarrow> (\<forall>t. ctx_ok (a_ctx a t)) \<and> ident_text (a_ident a) \<in> range escape_str \<and> (\<forall>l \<in> set (a_out a). readable l)"

lemma logger_ok_level [simp]: "logger_ok (a\<lparr>a_level := l\<rparr>) = logger_ok a"
  by (simp add: logger_ok_def)

lemma ctx_ok_split: "ctx_ok ps \<Longrightarrow> \<exists>kvs. ps = map (apsnd escape_str) kvs \<and> list_all (\<lambda>(k, v). escape_str k = k) kvs"
proof (induction ps)
  case (Cons p ps)
  obtain k v where p: "p = (k, v)" by (cases p)
  then obtain w where w: "v = escape_str w" "escape_str k = k" using Cons.prems by (auto simp: ctx_ok_def)
  obtain kvs where "ps = map (apsnd escape_str) kvs" "list_all (\<lambda>(k, v). escape_str k = k) kvs" using Cons by (auto simp: ctx_ok_def)
  then show ?case using p w by (intro exI [of _ "(k, w) # kvs"]) simp
qed simp

lemma ctx_ok_put: "ctx_ok ps \<Longrightarrow> escape_str k = k \<Longrightarrow> ctx_ok (put_spec k (escape_str v) ps)"
  by (auto simp: ctx_ok_def list_all_iff)

lemma ctx_ok_rm: "ctx_ok ps \<Longrightarrow> ctx_ok (rm_spec k ps)"
  by (auto simp: ctx_ok_def list_all_iff rm_spec_def)

lemma ctx_ok_fields: "list_all plain_key fs \<Longrightarrow> ctx_ok ps \<Longrightarrow> ctx_ok (fold (put_field h) fs ps)"
  by (induction fs arbitrary: ps) (simp_all add: put_field_def ctx_ok_put ctx_ok_rm plain_key_def del: put_spec.simps)

lemma ctx_ok_init: assumes "ctx_ok ps" shows "ctx_ok (init_pairs h ps)"
proof -
  have "ctx_ok (rm_spec ''PID'' (fold (put_field h) LOGFIELDS ps))" by (rule ctx_ok_rm [OF ctx_ok_fields [OF plain_keys(1) assms]])
  moreover have "escape_str ''PID'' = ''PID''" using plain_keys(2) by (simp add: plain_key_def)
  ultimately show ?thesis using ctx_ok_put [where v = "dec (nat (getpid_val h))"] unfolding init_pairs_def put_pid_def dec_plain(1) by blast
qed

lemma entry_head_le: "length (entry_head (PIPE_BUF - 1) tv i sev ps) + 20 \<le> PIPE_BUF - 1"
  using entry_head_fixed [of "PIPE_BUF - 1" tv i sev ps] fixed_head_length [of tv i sev]
    mdc_member_length [of "room (PIPE_BUF - 1) (fixed_head tv i sev)" ps] by (auto simp: room_def)

lemma entry_text_length:
  assumes "length (entry_head len tv i sev ps) + 20 < len" shows "length (entry_text len tv i sev ps m) < len"
proof -
  have "length (msg_member (len - length (entry_head len tv i sev ps) - 1) m) < len - length (entry_head len tv i sev ps) - 1"
    using msg_member_length [of "len - length (entry_head len tv i sev ps) - 1" m] assms by linarith
  then show ?thesis using assms by (simp add: entry_text_def Let_def)
qed

lemma log_lines_readable:
  assumes "ctx_ok ps" "ident_text i \<in> range escape_str" "l \<in> set (log_lines tv i sev ps m)"
  shows "readable l"
proof -
  obtain kvs name where kvs: "ps = map (apsnd escape_str) kvs" "list_all (\<lambda>(k, v). escape_str k = k) kvs" and name: "ident_text i = escape_str name"
    using ctx_ok_split [OF assms(1)] assms(2) by blast
  let ?line = "entry_text (PIPE_BUF - 1) tv i sev ps m"
  have l: "l = ?line @ [NEWLINE]" "length (entry_head (PIPE_BUF - 1) tv i sev ps) + 20 \<noteq> PIPE_BUF - 1"
    using assms(3) unfolding log_lines_def by (simp_all split: if_splits)
  have "MIN_BUFFER_LENGTH \<le> PIPE_BUF - 1" by simp
  then have e: "?line = show_entry (entry_members (PIPE_BUF - 1) tv i name sev kvs m)" unfolding kvs(1) by (rule entry_text_show [OF _ name kvs(2)])
  have "printable ?line" unfolding e by (rule printable_show_entry)
  then have "NEWLINE \<notin> set ?line" by (auto simp: printable_def list_all_iff isprint_def)
  moreover have "length l \<le> PIPE_BUF" using entry_text_length [of "PIPE_BUF - 1" tv i sev ps m] entry_head_le [of tv i sev ps] l by simp
  moreover have "read_entry ?line = Some (entry_members (PIPE_BUF - 1) tv i name sev kvs m)"
    unfolding e by (rule read_show_entry [OF entry_members_wf [OF kvs(2)]])
  ultimately show ?thesis using l(1) unfolding readable_def by blast
qed

text \<open>Every call keeps the contexts, the identity and the output readable. The escaped name of the
  program has to fit into the field of the entry, which cuts it off otherwise.\<close>

lemma spec_keeps_ok:
  assumes "logger_ok a" "length (escape_str pn) \<le> IDENTITY_MAX_LENGTH" shows "logger_ok (snd (api_spec pn (init_pairs h) op a))"
proof -
  have c: "\<And>t. ctx_ok (a_ctx a t)" "ident_text (a_ident a) \<in> range escape_str" "\<forall>l \<in> set (a_out a). readable l"
    using assms(1) by (simp_all add: logger_ok_def)
  have pn: "ident_text (Some (escape_str pn)) \<in> range escape_str" using assms(2) by (simp add: ident_text_def)
  have st: "logger_ok (started pn a)" using c pn by (simp add: logger_ok_def started_def)
  then have c1: "ident_text (a_ident (started pn a)) \<in> range escape_str" by (simp add: logger_ok_def)
  have touch_ok: "logger_ok (touch t b)" if "logger_ok b" for t b using that by (simp add: logger_ok_def)
  have set_ok: "logger_ok (set_ctx t ps b)" if "logger_ok b" "ctx_ok ps" for t ps b using that by (simp add: logger_ok_def set_ctx_def)
  have fmt: "logger_ok (format_spec pn (init_pairs h) t mon b)" if "logger_ok b" for b t mon
    using that pn ctx_ok_init [of "a_ctx b t" h] by (simp add: logger_ok_def format_spec_def set_ctx_def started_def)
  have named: "ident_text (Some s) \<in> range escape_str" if "valid_ident s" for s
    using that by (auto simp: valid_ident_def ident_text_def intro: range_eqI [of _ _ s])
  have reinit: "logger_ok (a\<lparr>a_init := x, a_ident := i, a_flag := False\<rparr>)" if "ident_text i \<in> range escape_str" for x i using c that by (simp add: logger_ok_def)
  show ?thesis
  proof (cases op)
    case (Log t sev m tv)
    have "\<forall>l \<in> set (log_lines tv (a_ident (started pn a)) sev (a_ctx a t) m). readable l" using log_lines_readable [OF c(1) c1] by blast
    then show ?thesis using Log assms(1) c c1 by (simp add: logger_ok_def Let_def ball_Un)
  next
    case (MdcAdd t k v)
    then show ?thesis using assms(1) set_ok [OF st ctx_ok_put [OF c(1)]] by (simp add: Let_def del: put_spec.simps split: option.split)
  next
    case (MdcGet t k)
    then show ?thesis using assms(1) touch_ok [OF st] by (simp split: option.split)
  next
    case (MdcRemove t k)
    then show ?thesis using assms(1) set_ok [OF st ctx_ok_rm [OF c(1)]] by (simp add: Let_def split: option.split)
  next
    case (MdcClean t)
    then show ?thesis using set_ok [OF st] by (simp add: ctx_ok_def)
  next
    case (Format t mon)
    then show ?thesis using fmt [OF assms(1)] by simp
  next
    case (Setup t s mon)
    have "logger_ok (a\<lparr>a_init := True, a_ident := Some (if valid_ident s then s else escape_str pn), a_flag := False\<rparr>)"
      by (rule reinit) (use named pn in simp)
    then show ?thesis using Setup fmt by simp
  next
    case (ThreadExit t)
    have "logger_ok (a\<lparr>a_ctx := (a_ctx a)(t := []), a_used := a_used a - {t}\<rparr>)" using c by (simp add: logger_ok_def ctx_ok_def)
    then show ?thesis using ThreadExit by simp
  next
    case LibClean
    have "escape_str ''(null)'' = ''(null)''" by (simp add: literal_simps)
    then have "ident_text None \<in> range escape_str" by (auto simp: ident_text_def intro: range_eqI [of _ _ "''(null)''"])
    then show ?thesis using reinit LibClean by simp
  next
    case (Watch i ifd wfd ev)
    then show ?thesis using c by (simp add: watch_spec_def logger_ok_def split: watch.split)
  qed (use assms(1) touch_ok [OF st] reinit [OF pn] in \<open>simp_all add: logger_ok_def\<close>)
qed

lemma spec_run_Nil: "spec_run pn fds [] a = ([], a)"
  by (simp add: spec_run_def)

lemma spec_run_snoc: "snd (spec_run pn fds (ops @ [op]) a) = snd (api_spec pn fds op (snd (spec_run pn fds ops a)))"
  by (simp add: spec_run_def run_spec_def)

lemma spec_run_ok:
  assumes "logger_ok a" "length (escape_str pn) \<le> IDENTITY_MAX_LENGTH" shows "logger_ok (snd (spec_run pn (init_pairs h) ops a))"
proof (induction ops rule: rev_induct)
  case (snoc op ops)
  then show ?case unfolding spec_run_snoc by (intro spec_keeps_ok assms(2))
qed (use assms(1) in \<open>simp add: spec_run_Nil\<close>)

section \<open>A process before its first call\<close>

definition fresh_env :: process where
  "fresh_env = \<lparr>strs = Map.empty, brk = 0, malloc_ok = \<lambda>a. True, garbage = \<lambda>a n. NUL, errno = 0, nodes = Map.empty, lists = Map.empty,
     tls = \<lambda>t. None, key_created = False, key_create_ec = 0, once_ec = 0, setspecific_ec = \<lambda>t. 0, current_level = MDCLOG_ERR,
     configuration = \<lparr>init_done = 0, log_format_init_done = 0, cfg_identity = None\<rparr>, attrs = Map.empty, progname = cblock ''prog'', out = [],
     write_answers = \<lambda>n. if n = 0 then WFail EINTR else WAccept PIPE_BUF, write_calls = 0, 
     getenv_val = [''POD_NAME'' \<mapsto> cblock ''pod'', LOG_FILE_CONFIG_MAP \<mapsto> cblock ''/c/f''], files = [''/c/f'' \<mapsto> sample_file], lstat_ret = \<lambda>s. if s = ''/c/f'' then 0 else - 1,
     getpid_val = 7, pthread_create_ret = 0, monitors = [], printed = [], watches = \<lambda>i. Pending\<rparr>"

definition fresh_logger :: logger where
  "fresh_logger = \<lparr>a_init = False, a_ident = None, a_level = MDCLOG_ERR, a_ctx = \<lambda>t. [], a_used = {}, a_out = [],
     a_flag = False, a_conf = Some MDCLOG_DEBUG, a_watch = []\<rparr>"

lemma fresh_rep: "api_rep retry_glibc ''prog'' (init_pairs fresh_env) fresh_env fresh_logger"
proof -
  have "mdc_rep (fresh_env\<lparr>key_created := True\<rparr>) t []" for t
    by (simp add: mdc_rep_def heap_wf_def fresh_env_def cells_ok_def)
  then have "lib_all fresh_env None (\<lambda>t. [])"
    by (simp add: lib_all_def lib_raw_def apart_def env_ok_def ident_owned_def fresh_env_def)
  moreover have n: "conf_name fresh_env = Some ''/c/f''" by (simp add: conf_name_def fresh_env_def cstr_def literal_simps)
  moreover have "tidy fresh_env (\<lambda>t. []) Map.empty" by (simp add: tidy_def fresh_env_def)
  moreover have "watch_rep name fresh_env Map.empty []" for name by (simp add: watch_rep_Nil fresh_env_def)
  ultimately have "proc_rep (conf_name fresh_env) fresh_env None (\<lambda>t. []) Map.empty []" by (simp add: proc_rep_def)
  moreover have "write_fair retry_glibc (write_answers fresh_env)" unfolding write_fair_def
  proof
    fix n
    show "\<exists>k m. (\<forall>j < k. \<exists>e. write_answers fresh_env (n + j) = WFail e \<and> retry_glibc (- 1) e) \<and> write_answers fresh_env (n + k) = WAccept m \<and> PIPE_BUF \<le> m"
      by (intro exI [of _ "if n = 0 then 1 else 0"] exI [of _ PIPE_BUF]) (simp add: fresh_env_def retry_glibc_def)
  qed
  moreover have "env_strings fresh_env" by (simp add: env_strings_def fresh_env_def c_string_def SIZE_MOD_def cstr_def literal_simps)
  moreover have "named_level ''Debug'' = MDCLOG_DEBUG" by (simp add: named_level_def level_table_def tolower_def char_of_def bit_0)
  then have "conf_rep fresh_env (Some MDCLOG_DEBUG)"
    using sample_lines unfolding conf_rep_def level_of_named sample_file_def [symmetric]
    by (auto simp: fresh_env_def sample_file_def cstr_def literal_simps)
  moreover have "retry_policy retry_glibc" by unfold_locales
  ultimately have e: "api_env retry_glibc ''prog'' (init_pairs fresh_env) fresh_env"
      and p: "proc_rep (conf_name fresh_env) fresh_env None (\<lambda>t. []) Map.empty []" and c: "conf_rep fresh_env (Some MDCLOG_DEBUG)"
    using n unfolding api_env_def by (simp_all add: fresh_env_def SIZE_MOD_def INT_MAX_def cstr_def literal_simps)
  show ?thesis unfolding api_at_def
    by (intro conjI exI [of _ "\<lambda>t. []"] exI [of _ Map.empty]) (use e p c in \<open>simp_all add: fresh_logger_def fresh_env_def pairs_def\<close>)
qed

section \<open>Results and memory\<close>

text \<open>What each call returns: a status, which is -1 for the calls of \<open>mdclog_mdc_add\<close> that are refused, a
  level, NULL or a printable string, or nothing.\<close>

definition valid_level :: "severity \<Rightarrow> bool" where
  "valid_level l \<longleftrightarrow> MDCLOG_ERR \<le> l \<and> l \<le> MDCLOG_DEBUG"

definition accepted :: "string option \<Rightarrow> string option \<Rightarrow> bool" where
  "accepted k v \<longleftrightarrow> (case k of None \<Rightarrow> False | Some s \<Rightarrow> v \<noteq> None \<and> escape_str s = s)"

definition has_type :: "api_op \<Rightarrow> api_res \<Rightarrow> bool" where
  "has_type op r = (case op of
      MdcAdd t k v \<Rightarrow> r = Ret (if accepted k v then 0 else - 1)
    | MdcGet t k \<Rightarrow> (case r of Text None \<Rightarrow> True | Text (Some s) \<Rightarrow> printable s | _ \<Rightarrow> False)
    | GetLevel \<Rightarrow> (case r of Lev l \<Rightarrow> valid_level l | _ \<Rightarrow> False)
    | Init \<Rightarrow> r = Ret 0
    | Format t mon \<Rightarrow> r = Ret 0
    | Setup t s mon \<Rightarrow> r = Ret 0
    | _ \<Rightarrow> r = Void)"

text \<open>The level stays one of the four severities when no other value is set.\<close>

definition levels_ok :: "logger \<Rightarrow> bool" where
  "levels_ok a \<longleftrightarrow> valid_level (a_level a) \<and> pred_option valid_level (a_conf a)"

fun level_arg :: "api_op \<Rightarrow> bool" where
  "level_arg (SetLevel l) \<longleftrightarrow> valid_level l"
| "level_arg _ \<longleftrightarrow> True"

lemma file_level_valid: "pred_option valid_level (file_level ls)"
proof -
  have "valid_level (level_of v)" for v using level_of_range [of v] by (simp add: valid_level_def)
  then show ?thesis by (cases "find level_line ls") (auto simp: file_level_def option.pred_map pred_option_def)
qed

lemma configured_valid: "levels_ok a \<Longrightarrow> valid_level (configured a)"
  by (auto simp: levels_ok_def configured_def split: option.split)

lemma levels_ok_same: "levels_ok a \<Longrightarrow> a_level b = a_level a \<Longrightarrow> a_conf b = a_conf a \<Longrightarrow> levels_ok b"
  by (simp add: levels_ok_def)

lemma started_watch [simp]: "a_conf (started pn a) = a_conf a" "a_watch (started pn a) = a_watch a"
  by (simp_all add: started_def)

lemma touch_watch [simp]: "a_conf (touch t a) = a_conf a" "a_watch (touch t a) = a_watch a" "a_conf (set_ctx t ps a) = a_conf a" "a_watch (set_ctx t ps a) = a_watch a"
  "a_level (set_ctx t ps a) = a_level a"
  by (simp_all add: touch_def set_ctx_def)

lemma format_spec_levels: "levels_ok a \<Longrightarrow> levels_ok (format_spec pn fds t mon a)"
  using configured_valid [of a] by (simp add: format_spec_def levels_ok_def)

lemma spec_levels: assumes "levels_ok a" "level_arg op" shows "levels_ok (snd (api_spec pn fds op a))"
proof (cases op)
  case (SetLevel l)
  then show ?thesis using assms by (simp add: levels_ok_def)
next
  case (Format t mon)
  then show ?thesis using format_spec_levels [OF assms(1)] by simp
next
  case (Setup t s mon)
  have "levels_ok (a\<lparr>a_init := True, a_ident := i, a_flag := False\<rparr>)" for i by (rule levels_ok_same [OF assms(1)]) simp_all
  then show ?thesis using Setup format_spec_levels by simp
next
  case (Watch i ifd wfd ev)
  then show ?thesis using assms(1) configured_valid [OF assms(1)] by (simp add: watch_spec_def levels_ok_def split: watch.split)
next
  case (FileChange ls)
  then show ?thesis using assms(1) file_level_valid [of ls] by (simp add: levels_ok_def)
qed (use assms(1) in \<open>simp_all add: levels_ok_def Let_def split: option.split del: put_spec.simps\<close>)

lemma spec_has_type: assumes "logger_ok a" "levels_ok a" shows "has_type op (fst (api_spec pn fds op a))"
proof (cases op)
  case (MdcGet t k)
  have "printable v" if "map_of (a_ctx a t) s = Some v" for s v
    using map_of_SomeD [OF that] assms(1) by (force simp: logger_ok_def ctx_ok_def list_all_iff)
  then show ?thesis using MdcGet by (auto simp: has_type_def split: option.split)
next
  case (MdcAdd t k v)
  then show ?thesis by (auto simp: has_type_def accepted_def Let_def split: option.split)
next
  case GetLevel
  then show ?thesis using assms(2) by (simp add: has_type_def levels_ok_def)
qed (simp_all add: has_type_def Let_def split: option.split)

lemma spec_run_snoc_fst: "fst (spec_run pn fds (ops @ [op]) a) = fst (spec_run pn fds ops a) @ [fst (api_spec pn fds op (snd (spec_run pn fds ops a)))]"
  by (simp add: spec_run_def run_spec_def)

lemma spec_run_types:
  assumes "logger_ok a" "levels_ok a" "length (escape_str pn) \<le> IDENTITY_MAX_LENGTH" "list_all level_arg ops"
  shows "list_all2 has_type ops (fst (spec_run pn (init_pairs h) ops a))" "levels_ok (snd (spec_run pn (init_pairs h) ops a))"
proof -
  have "list_all2 has_type ops (fst (spec_run pn (init_pairs h) ops a)) \<and> levels_ok (snd (spec_run pn (init_pairs h) ops a))" using assms(4)
  proof (induction ops rule: rev_induct)
    case (snoc op ops)
    then have l: "levels_ok (snd (spec_run pn (init_pairs h) ops a))" "level_arg op" and t: "list_all2 has_type ops (fst (spec_run pn (init_pairs h) ops a))" by simp_all
    have "has_type op (fst (api_spec pn (init_pairs h) op (snd (spec_run pn (init_pairs h) ops a))))" by (rule spec_has_type [OF spec_run_ok [OF assms(1,3)] l(1)])
    then show ?case unfolding spec_run_snoc_fst spec_run_snoc using t spec_levels [OF l] by (auto intro: list_all2_appendI)
  qed (use assms(2) in \<open>simp add: spec_run_Nil\<close>)
  then show "list_all2 has_type ops (fst (spec_run pn (init_pairs h) ops a))" "levels_ok (snd (spec_run pn (init_pairs h) ops a))" by simp_all
qed

text \<open>The threads that a call concerns.\<close>

fun op_threads :: "api_op \<Rightarrow> thread set" where
  "op_threads (Log t sev m tv) = {t}"
| "op_threads (MdcAdd t k v) = {t}"
| "op_threads (MdcGet t k) = {t}"
| "op_threads (MdcRemove t k) = {t}"
| "op_threads (MdcClean t) = {t}"
| "op_threads (Format t mon) = {t}"
| "op_threads (Setup t s mon) = {t}"
| "op_threads _ = {}"

lemma used_started [simp]: "a_used (started pn a) = a_used a"
  by (simp add: started_def)

lemma spec_used: "a_used (snd (api_spec pn fds op a)) \<subseteq> a_used a \<union> op_threads op"
  by (cases op) (auto simp: Let_def set_ctx_def touch_def watch_spec_def format_spec_def split: watch.split option.splits)

lemma spec_run_append: "snd (spec_run pn fds (xs @ ys) a) = snd (spec_run pn fds ys (snd (spec_run pn fds xs a)))"
  by (induction ys rule: rev_induct) (simp_all add: spec_run_snoc spec_run_Nil flip: append_assoc)

lemma spec_run_used: "a_used (snd (spec_run pn fds ops a)) \<subseteq> a_used a \<union> (\<Union>op \<in> set ops. op_threads op)"
proof (induction ops rule: rev_induct)
  case (snoc op ops)
  then show ?case unfolding spec_run_snoc using spec_used [of pn fds op "snd (spec_run pn fds ops a)"] by auto
qed (simp add: spec_run_Nil)

lemma spec_run_exits: "a_used (snd (spec_run pn fds (map ThreadExit ts) a)) = a_used a - set ts"
  by (induction ts rule: rev_induct) (auto simp: spec_run_Nil spec_run_snoc)

text \<open>The calls of \<open>mdclog_format_initialize\<close> that ask for a monitor.\<close>

fun starts_watch :: "api_op \<Rightarrow> bool" where
  "starts_watch (Format t mon) \<longleftrightarrow> mon \<noteq> 0"
| "starts_watch (Setup t s mon) \<longleftrightarrow> mon \<noteq> 0"
| "starts_watch _ \<longleftrightarrow> False"

lemma watch_spec_keeps: "a_conf (watch_spec i ok ev a) = a_conf a" "length (a_watch (watch_spec i ok ev a)) = length (a_watch a)"
  by (simp_all add: watch_spec_def split: watch.split)

lemma spec_watch:
  assumes "call_ok op"
  shows "(a_conf (snd (api_spec pn fds op a)) = None \<longleftrightarrow> a_conf a = None) \<and>
    length (a_watch (snd (api_spec pn fds op a))) \<le> length (a_watch a) + (if a_conf a \<noteq> None \<and> starts_watch op then 1 else 0)"
proof (cases op)
  case (FileChange ls)
  then have "file_level ls \<noteq> None" using assms by simp
  then show ?thesis using FileChange by auto
qed (simp_all add: Let_def watch_spec_keeps format_spec_def del: put_spec.simps split: option.split)

lemma spec_run_watch:
  assumes "list_all call_ok ops"
  shows "(a_conf (snd (spec_run pn fds ops a)) = None \<longleftrightarrow> a_conf a = None) \<and>
    length (a_watch (snd (spec_run pn fds ops a))) \<le> length (a_watch a) + (if a_conf a = None then 0 else length (filter starts_watch ops))"
  using assms
proof (induction ops rule: rev_induct)
  case (snoc op ops)
  then show ?case unfolding spec_run_snoc using spec_watch [of op pn fds "snd (spec_run pn fds ops a)"] by auto
qed (simp add: spec_run_Nil)

text \<open>Without threads that use it and without an identity, the library holds what its monitors hold.\<close>

lemma nothing_left:
  assumes "api_rep retry pn fds h a" "a_used a = {}" "a_ident a = None"
  shows "nodes h = Map.empty \<and> lists h = Map.empty \<and> attrs h = Map.empty \<and> dom (strs h) = (\<Union>i < length (monitors h). owns h i) \<and>
    length (monitors h) = length (a_watch a)"
proof -
  from assms(1) obtain C X where C: "proc_rep (conf_name h) h (a_ident a) C X (a_watch a)" "lib_all h (a_ident a) C" "tidy h C X" by (rule api_repE)
  have t: "tls h t = None" for t using api_rep_used [OF assms(1), of t] assms(2) by (cases "tls h t") auto
  have c: "C t = []" for t using lib_allD(1) [OF C(2), of t] t by (simp add: lib_raw_def mdc_rep_def)
  have i: "cfg_identity (configuration h) = None"
    using lib_allD(1) [OF C(2), of 0] assms(3) by (auto simp: lib_raw_def ident_owned_def split: option.splits)
  have d: "dom (strs h) \<subseteq> dom X" "nodes h = Map.empty" "lists h = Map.empty" using C(3) by (simp_all add: tidy_def c i t)
  moreover have "dom X \<subseteq> dom (strs h)" using tidyD [OF C(3)] by blast
  ultimately have "dom (strs h) = dom X" by blast
  moreover have "dom X = (\<Union>i < length (a_watch a). owns h i)" "length (monitors h) = length (a_watch a)"
    using proc_repD(3) [OF C(1)] by (simp_all add: watch_rep_def)
  ultimately show ?thesis using d(2,3) api_repD(3) [OF assms(1)] by simp
qed

text \<open>The monitors of a state and of its specification.\<close>

lemma api_rep_monitors: "api_rep retry pn fds h a \<Longrightarrow> length (monitors h) = length (a_watch a)"
  by (erule api_repE) (auto dest: proc_repD(3) simp: watch_rep_def)

lemma api_rep_watching:
  assumes "api_rep retry pn fds h a" "i < length (a_watch a)"
  shows "a_watch a ! i = Watching \<longleftrightarrow> (\<exists>d b. watches h i = Looping d b)" "a_watch a ! i = Starting \<longleftrightarrow> watches h i = Pending" "a_conf a \<noteq> None"
proof -
  from assms(1) obtain C X where r: "proc_rep (conf_name h) h (a_ident a) C X (a_watch a)" by (rule api_repE)
  note w = proc_repD(3) [OF r]
  show "a_watch a ! i = Watching \<longleftrightarrow> (\<exists>d b. watches h i = Looping d b)"
    using watch_stage [OF w assms(2)] by (cases "watches h i") (auto simp: stage_ok_def)
  show "a_watch a ! i = Starting \<longleftrightarrow> watches h i = Pending" by (rule watch_starting [OF w assms(2)])
  show "a_conf a \<noteq> None" using watch_rep_name [OF w assms(2)] conf_name_conf [OF api_repD(2) [OF assms(1)]] by auto
qed

lemma seg_points:
  assumes "seg N S q cs z" "x \<in> node_addrs cs" "N x = Some n"
  shows "mdc_key n \<in> Some ` str_addrs cs \<and> mdc_value n \<in> Some ` str_addrs cs"
  using assms by (induction cs arbitrary: q) (auto simp: node_addrs_def str_addrs_def cell_node_def)

lemma monitors_apart:
  assumes "api_rep retry pn fds h a"
  shows "\<forall>i < length (monitors h).
    (\<exists>f. conf_name h = Some f \<and> str_at (monitors h ! i) h = Some f) \<and>
    (\<forall>x \<in> owns h i. strs h x \<noteq> None \<and> cfg_identity (configuration h) \<noteq> Some x \<and>
      (\<forall>n \<in> ran (nodes h). mdc_key n \<noteq> Some x \<and> mdc_value n \<noteq> Some x) \<and>
      (\<forall>j < length (monitors h). j \<noteq> i \<longrightarrow> x \<notin> owns h j))"
proof (intro allI impI conjI ballI)
  from assms obtain C X where r: "proc_rep (conf_name h) h (a_ident a) C X (a_watch a)" "lib_all h (a_ident a) C" "tidy h C X" by (rule api_repE)
  note w = proc_repD(3) [OF r(1)] and l = api_rep_monitors [OF assms]
  fix i assume i: "i < length (monitors h)"
  obtain m f where m: "monitors h ! i = Some m" "conf_name h = Some f" "X m = Some (cblock f)" using watch_rep_name [OF w] i l by metis
  then have "strs h m = Some (cblock f)" "NUL \<notin> set f" using tidyD [OF r(3) m(3)] proc_repD(4) [OF r(1) m(2)] by simp_all
  then show "\<exists>f. conf_name h = Some f \<and> str_at (monitors h ! i) h = Some f" using m by (simp add: str_at_def)
  fix x assume x: "x \<in> owns h i"
  have "dom X = (\<Union>k < length (monitors h). owns h k)" using w l by (simp add: watch_rep_def)
  then obtain b where b: "X x = Some b" using i x by blast
  then show "strs h x \<noteq> None" "cfg_identity (configuration h) \<noteq> Some x" using tidyD [OF r(3) b] by simp_all
  fix n assume "n \<in> ran (nodes h)"
  then obtain y t where y: "nodes h y = Some n" "y \<in> node_addrs (C t)" using r(3) by (auto simp: ran_def tidy_def)
  have "seg (nodes h) (strs h) None (C t) None" using mdc_repD(4) lib_allD(1) [OF r(2), of t] by (force simp: lib_raw_def)
  from seg_points [OF this y(2,1)] show "mdc_key n \<noteq> Some x" "mdc_value n \<noteq> Some x" using tidyD [OF r(3) b, of t] by auto
next
  from assms obtain C X where r: "proc_rep (conf_name h) h (a_ident a) C X (a_watch a)" by (rule api_repE)
  note w = proc_repD(3) [OF r]
  fix i x j assume i: "i < length (monitors h)" "x \<in> owns h i" "j < length (monitors h)" "j \<noteq> i"
  then have "owns h i \<inter> owns h j = {}" using w by (simp add: watch_rep_def)
  then show "x \<notin> owns h j" using i(2) by blast
qed

text \<open>The calls that do not take the flag down and leave the file alone; they keep a monitor running.\<close>

fun calm :: "api_op \<Rightarrow> bool" where
  "calm Init \<longleftrightarrow> False"
| "calm (Format t mon) \<longleftrightarrow> True"
| "calm (Setup t s mon) \<longleftrightarrow> False"
| "calm LibClean \<longleftrightarrow> False"
| "calm (FileChange ls) \<longleftrightarrow> False"
| "calm _ \<longleftrightarrow> True"

definition watched :: "nat \<Rightarrow> severity \<Rightarrow> logger \<Rightarrow> bool" where
  "watched i l a \<longleftrightarrow> i < length (a_watch a) \<and> a_watch a ! i = Watching \<and> a_flag a \<and> a_conf a = Some l"

lemma watch_spec_watched: "watched i l a \<Longrightarrow> watched i l (watch_spec j ok ev a)"
  by (auto simp: watched_def watch_spec_def nth_list_update split: watch.split)

lemma started_flag [simp]: "a_flag (started pn a) = a_flag a" "a_flag (touch t a) = a_flag a" "a_flag (set_ctx t ps a) = a_flag a"
  by (simp_all add: started_def touch_def set_ctx_def)

lemma calm_watched: assumes "calm op" "watched i l a" shows "watched i l (snd (api_spec pn fds op a))"
proof (cases op)
  case (Watch j ifd wfd ev)
  then show ?thesis using watch_spec_watched [OF assms(2)] by simp
qed (use assms in \<open>simp_all add: watched_def Let_def format_spec_def del: put_spec.simps split: option.split\<close>)

lemma calm_run_watched: "list_all calm ops \<Longrightarrow> watched i l a \<Longrightarrow> watched i l (snd (spec_run pn fds ops a))"
  by (induction ops rule: rev_induct) (simp_all add: spec_run_Nil spec_run_snoc calm_watched)

lemma spec_run_append_fst:
  "fst (spec_run pn fds (xs @ ys) a) = fst (spec_run pn fds xs a) @ fst (spec_run pn fds ys (snd (spec_run pn fds xs a)))"
  by (induction ys rule: rev_induct) (simp_all add: spec_run_Nil spec_run_append spec_run_snoc_fst flip: append_assoc)

lemma watched_event:
  assumes "watched i l a" shows "fst (spec_run pn fds [Watch i ifd wfd Event, GetLevel] a) = [Void, Lev l]"
  using assms by (simp add: spec_run_def run_spec_def watch_spec_def watched_def configured_def)

section \<open>Properties\<close>

text \<open>A client that initialises the library with a monitor; the file is changed, and the monitor sees it.\<close>

definition sample_run :: "api_op list" where
  "sample_run = [SetLevel MDCLOG_INFO, MdcAdd 1 (Some ''k'') (Some ''v''), MdcAdd 1 None (Some ''v''), Log 1 MDCLOG_INFO ''hello'' \<lparr>tv_sec = 1, tv_usec = 2\<rparr>, Setup 2 ''me'' 1, GetLevel, MdcGet 1 (Some ''k''), MdcGet 2 (Some ''PID''),
     Watch 0 3 1 Timeout, Format 1 0, FileChange [''log-level: Warn''], GetLevel, Watch 0 3 1 Event, GetLevel]"

lemma file_level_warn: "file_level [''log-level: Warn''] = Some MDCLOG_WARN" "list_all config_line [''log-level: Warn'']"
proof -
  have "find level_line [''log-level: Warn''] = Some ''log-level: Warn''" "line_value ''log-level: Warn'' = Some ''Warn''"
    by (simp_all add: level_line_def after_key_def separator_def line_value_def)
  moreover have "named_level ''Warn'' = MDCLOG_WARN" by (simp add: named_level_def level_table_def tolower_def char_of_def bit_0)
  ultimately show "file_level [''log-level: Warn''] = Some MDCLOG_WARN" unfolding file_level_def level_of_named [abs_def] by simp
qed (simp add: config_line_def)

lemma sample_run_ok: "list_all call_ok sample_run"
  using file_level_warn by (simp add: sample_run_def c_string_def SIZE_MOD_def INT_MAX_def literal_simps)

lemma sample_results:
  "fst (spec_run ''prog'' (init_pairs fresh_env) sample_run fresh_logger) =
     [Void, Ret 0, Ret (- 1), Void, Ret 0, Lev MDCLOG_DEBUG, Text (Some ''v''), Text (Some ''7''), Void, Ret 0, Void, Lev MDCLOG_DEBUG, Void, Lev MDCLOG_WARN]"
proof -
  have "map_of (init_pairs fresh_env []) ''PID'' = Some ''7''"
    unfolding map_of_init_pairs by (simp add: init_context_def fresh_env_def dec.simps char_of_def bit_0 literal_simps)
  then show ?thesis
    by (simp add: spec_run_def run_spec_def sample_run_def fresh_logger_def set_ctx_def touch_def started_def configured_def watch_spec_def format_spec_def file_level_warn Let_def literal_simps)
qed

text \<open>A library that was set up with a monitor, which has come to its loop.\<close>

definition watched_run :: "api_op list" where
  "watched_run = [Setup 1 ''me'' 1, Watch 0 3 1 Timeout]"

lemma watched_run_rep:
  "\<exists>rs h a. api_run retry_glibc (replicate PIPE_BUF NUL) watched_run fresh_env = Some (rs, h) \<and> api_rep retry_glibc ''prog'' (init_pairs fresh_env) h a \<and>
    a_watch a = [Watching] \<and> a_flag a \<and> a_conf a = Some MDCLOG_DEBUG"
proof -
  have "list_all call_ok watched_run" by (simp add: watched_run_def INT_MAX_def)
  from api_run_ok [OF fresh_rep _ this, of "replicate PIPE_BUF NUL"]
  obtain h where "api_run retry_glibc (replicate PIPE_BUF NUL) watched_run fresh_env = Some (fst (spec_run ''prog'' (init_pairs fresh_env) watched_run fresh_logger), h)"
    "api_rep retry_glibc ''prog'' (init_pairs fresh_env) h (snd (spec_run ''prog'' (init_pairs fresh_env) watched_run fresh_logger))" by auto
  moreover have "a_watch (snd (spec_run ''prog'' fds watched_run fresh_logger)) = [Watching] \<and> a_flag (snd (spec_run ''prog'' fds watched_run fresh_logger)) \<and>
      a_conf (snd (spec_run ''prog'' fds watched_run fresh_logger)) = Some MDCLOG_DEBUG" for fds
    by (simp add: spec_run_def run_spec_def watched_run_def fresh_logger_def watch_spec_def format_spec_def started_def set_ctx_def)
  ultimately show ?thesis by blast
qed

text \<open>C1: the library implements its specification. Whatever calls of the API the threads of a process
  make, in whatever order (those on attributes as one set-up, in the order of the developer guide), with
  contexts, identities, levels and messages of any content, keys and values that may be NULL, and whatever
  the monitor threads and the changes of the configuration file do in between: no call and no turn of a
  monitor faults, every call returns what the specification says, and the lines on the standard output,
  the level, the identity, the context of each thread and the states of the monitors are those of the
  specification. The environment is one in which memory can be allocated and threads be created,
  \<open>write\<close> takes each line in the end, and the configuration file, if there is one, names a level
  whenever it is read.\<close>

theorem api_refines:
  assumes "api_rep retry pn fds h a" "length stack = PIPE_BUF" "list_all call_ok ops"
  shows "\<exists>h'. api_run retry stack ops h = Some (fst (spec_run pn fds ops a), h') \<and> api_rep retry pn fds h' (snd (spec_run pn fds ops a))"
  using assms by (rule api_run_ok)

theorem api_refines_witness:
  "\<exists>h'. api_run retry_glibc (replicate PIPE_BUF NUL) sample_run fresh_env = Some ([Void, Ret 0, Ret (- 1), Void, Ret 0, Lev MDCLOG_DEBUG, Text (Some ''v''), Text (Some ''7''),
     Void, Ret 0, Void, Lev MDCLOG_DEBUG, Void, Lev MDCLOG_WARN], h')"
  using api_refines [OF fresh_rep, of "replicate PIPE_BUF NUL" sample_run] sample_run_ok unfolding sample_results by auto

text \<open>C7: after any run in such an environment, once the threads that used the library have ended and
  \<open>mdclog_lib_clean\<close> has been called, nothing the library has allocated is left but what the monitors
  hold: each one its copy of the file name and, while it is in its loop, two more names. There is
  at most one monitor for each call that asked for it, if there is a configuration file, and none
  otherwise; without a monitor everything is freed.\<close>

theorem api_no_leak:
  assumes "api_rep retry pn fds h a" "length stack = PIPE_BUF" "list_all call_ok ops" "a_used a \<union> (\<Union>op \<in> set ops. op_threads op) \<subseteq> set ts"
  shows "\<exists>rs h'. api_run retry stack (ops @ map ThreadExit ts @ [LibClean]) h = Some (rs, h') \<and>
    nodes h' = Map.empty \<and> lists h' = Map.empty \<and> attrs h' = Map.empty \<and> dom (strs h') = (\<Union>i < length (monitors h'). owns h' i) \<and>
    length (monitors h') \<le> length (a_watch a) + (if a_conf a = None then 0 else length (filter starts_watch ops))"
proof -
  let ?ops = "ops @ map ThreadExit ts @ [LibClean]"
  have ok: "list_all call_ok ?ops" using assms(3) by (auto simp: list_all_iff)
  from api_run_ok [OF assms(1,2) this] obtain h' where h': "api_run retry stack ?ops h = Some (fst (spec_run pn fds ?ops a), h')"
    "api_rep retry pn fds h' (snd (spec_run pn fds ?ops a))" by blast
  let ?b = "snd (spec_run pn fds (map ThreadExit ts) (snd (spec_run pn fds ops a)))"
  have e: "snd (spec_run pn fds ?ops a) = ?b\<lparr>a_init := False, a_ident := None, a_flag := False\<rparr>"
    by (simp add: spec_run_append) (simp add: spec_run_def run_spec_def)
  have "a_used ?b = {}" using spec_run_used [of pn fds ops a] assms(4) unfolding spec_run_exits by blast
  then have "a_used (snd (spec_run pn fds ?ops a)) = {}" "a_ident (snd (spec_run pn fds ?ops a)) = None" unfolding e by simp_all
  note left = nothing_left [OF h'(2) this]
  have "filter starts_watch ?ops = filter starts_watch ops" by (induction ts) simp_all
  then have "length (a_watch (snd (spec_run pn fds ?ops a))) \<le> length (a_watch a) + (if a_conf a = None then 0 else length (filter starts_watch ops))"
    using spec_run_watch [OF ok, of pn fds a] by metis
  then show ?thesis using h'(1) left by (intro exI [of _ "fst (spec_run pn fds ?ops a)"] exI [of _ h']) simp
qed

theorem api_no_leak_witness:
  "\<exists>rs h'. api_run retry_glibc (replicate PIPE_BUF NUL) (sample_run @ map ThreadExit [1, 2] @ [LibClean]) fresh_env = Some (rs, h') \<and>
    nodes h' = Map.empty \<and> lists h' = Map.empty \<and> attrs h' = Map.empty \<and> dom (strs h') \<subseteq> owns h' 0 \<and> length (monitors h') \<le> 1"
proof -
  have "\<exists>rs h'. api_run retry_glibc (replicate PIPE_BUF NUL) (sample_run @ map ThreadExit [1, 2] @ [LibClean]) fresh_env = Some (rs, h') \<and>
      nodes h' = Map.empty \<and> lists h' = Map.empty \<and> attrs h' = Map.empty \<and> dom (strs h') = (\<Union>i < length (monitors h'). owns h' i) \<and>
      length (monitors h') \<le> length (a_watch fresh_logger) + (if a_conf fresh_logger = None then 0 else length (filter starts_watch sample_run))"
    by (rule api_no_leak [OF fresh_rep _ sample_run_ok]) (simp_all add: sample_run_def fresh_logger_def)
  then obtain rs h' where w: "api_run retry_glibc (replicate PIPE_BUF NUL) (sample_run @ map ThreadExit [1, 2] @ [LibClean]) fresh_env = Some (rs, h')"
      "nodes h' = Map.empty" "lists h' = Map.empty" "attrs h' = Map.empty" "dom (strs h') = (\<Union>i < length (monitors h'). owns h' i)"
      "length (monitors h') \<le> length (a_watch fresh_logger) + (if a_conf fresh_logger = None then 0 else length (filter starts_watch sample_run))" by blast
  have "length (monitors h') \<le> 1" using w(6) by (simp add: sample_run_def fresh_logger_def)
  then have "(\<Union>i < length (monitors h'). owns h' i) \<subseteq> owns h' 0" "length (monitors h') \<le> 1" by (auto simp: less_Suc_eq_le dest: less_le_trans)
  then show ?thesis using w(1-5) by (intro exI [of _ rs] exI [of _ h']) simp
qed

text \<open>C6: every line that the library writes in a run can be read: it ends with the only newline in it,
  has at most \<open>PIPE_BUF\<close> bytes and is one JSON object, provided that the escaped name of the program
  fits into the identity field.\<close>

theorem api_output_readable:
  assumes "api_rep retry pn fds h a" "logger_ok a" "length (escape_str pn) \<le> IDENTITY_MAX_LENGTH" "length stack = PIPE_BUF" "list_all call_ok ops"
  shows "\<exists>rs h'. api_run retry stack ops h = Some (rs, h') \<and>
    (\<forall>l \<in> set (out h'). \<exists>line ms. l = line @ [NEWLINE] \<and> NEWLINE \<notin> set line \<and> length l \<le> PIPE_BUF \<and> read_entry line = Some ms)"
proof -
  obtain h' where h': "api_run retry stack ops h = Some (fst (spec_run pn fds ops a), h')" "api_rep retry pn fds h' (snd (spec_run pn fds ops a))"
    using api_run_ok [OF assms(1,4,5)] by blast
  have "fds = init_pairs h" using assms(1) by (simp add: api_at_def api_env_def)
  then have "logger_ok (snd (spec_run pn fds ops a))" using spec_run_ok [OF assms(2,3)] by simp
  then have "\<forall>l \<in> set (out h'). readable l" using h'(2) by (simp add: logger_ok_def api_at_def)
  then show ?thesis using h'(1) unfolding readable_def by blast
qed

lemma fresh_logger_ok: "logger_ok fresh_logger" "length (escape_str ''prog'') \<le> IDENTITY_MAX_LENGTH"
proof -
  have "escape_str ''(null)'' = ''(null)''" by (simp add: literal_simps)
  then have "ident_text None \<in> range escape_str" by (auto simp: ident_text_def intro: range_eqI [of _ _ "''(null)''"])
  then show "logger_ok fresh_logger" by (simp add: logger_ok_def fresh_logger_def ctx_ok_def)
  show "length (escape_str ''prog'') \<le> IDENTITY_MAX_LENGTH" by (simp add: literal_simps)
qed

theorem api_output_readable_witness:
  "\<exists>rs h'. api_run retry_glibc (replicate PIPE_BUF NUL) sample_run fresh_env = Some (rs, h') \<and>
    (\<forall>l \<in> set (out h'). \<exists>line ms. l = line @ [NEWLINE] \<and> NEWLINE \<notin> set line \<and> length l \<le> PIPE_BUF \<and> read_entry line = Some ms)"
  by (rule api_output_readable [OF fresh_rep fresh_logger_ok _ sample_run_ok]) simp

text \<open>C10: the results of the API. In any run in which the level is set to the four severities only,
  \<open>mdclog_level_get\<close> returns one of them; \<open>mdclog_mdc_add\<close> returns 0, or -1 exactly when the key or the
  value is NULL or the key has special characters (a value with special characters is accepted and
  escaped, although \<open>mdclog.h\<close> announces EINVAL for it); \<open>mdclog_mdc_get\<close> returns NULL or a printable
  string that is terminated; and the functions of the initialisation return 0. The state that is left
  is again a well-formed library with escaped contexts, an identity that can be printed, and levels
  out of the four.\<close>

theorem api_results_typed:
  assumes "api_rep retry pn fds h a" "logger_ok a" "levels_ok a" "length (escape_str pn) \<le> IDENTITY_MAX_LENGTH" "length stack = PIPE_BUF"
    "list_all call_ok ops" "list_all level_arg ops"
  shows "\<exists>rs h' b. api_run retry stack ops h = Some (rs, h') \<and> list_all2 has_type ops rs \<and> api_rep retry pn fds h' b \<and> logger_ok b \<and> levels_ok b"
proof -
  have fds: "fds = init_pairs h" using api_repD(1) [OF assms(1)] by (simp add: api_env_def)
  show ?thesis using api_run_ok [OF assms(1,5,6)] spec_run_types [OF assms(2-4,7)] spec_run_ok [OF assms(2,4)] unfolding fds by blast
qed

theorem api_results_typed_witness:
  "\<exists>rs h' b. api_run retry_glibc (replicate PIPE_BUF NUL) sample_run fresh_env = Some (rs, h') \<and> list_all2 has_type sample_run rs \<and>
    api_rep retry_glibc ''prog'' (init_pairs fresh_env) h' b \<and> logger_ok b \<and> levels_ok b"
proof -
  have "levels_ok fresh_logger" "list_all level_arg sample_run" by (simp_all add: levels_ok_def valid_level_def fresh_logger_def sample_run_def)
  from api_results_typed [OF fresh_rep fresh_logger_ok(1) this(1) fresh_logger_ok(2) _ sample_run_ok this(2)] show ?thesis by simp
qed

text \<open>C19: the monitors keep what they work with. In every state that a run can reach, whatever calls the
  threads have made, \<open>mdclog_init\<close> and \<open>mdclog_lib_clean\<close> among them, and however far the monitors have
  got: each monitor has its copy of the name of the configuration file; the blocks that it holds are
  live; none of them is the identity, belongs to an entry of a context or is held by another monitor.
  So nobody frees what a monitor uses, and no monitor frees what others use.\<close>

theorem monitor_invariant:
  assumes "api_rep retry pn fds h a" "length stack = PIPE_BUF" "list_all call_ok ops"
  shows "\<exists>rs h'. api_run retry stack ops h = Some (rs, h') \<and> (\<forall>i < length (monitors h').
    (\<exists>f. conf_name h' = Some f \<and> str_at (monitors h' ! i) h' = Some f) \<and>
    (\<forall>x \<in> owns h' i. strs h' x \<noteq> None \<and> cfg_identity (configuration h') \<noteq> Some x \<and>
      (\<forall>n \<in> ran (nodes h'). mdc_key n \<noteq> Some x \<and> mdc_value n \<noteq> Some x) \<and>
      (\<forall>j < length (monitors h'). j \<noteq> i \<longrightarrow> x \<notin> owns h' j)))"
proof -
  obtain h' where h': "api_run retry stack ops h = Some (fst (spec_run pn fds ops a), h')" "api_rep retry pn fds h' (snd (spec_run pn fds ops a))"
    using api_run_ok [OF assms] by blast
  from monitors_apart [OF h'(2)] show ?thesis using h'(1) by blast
qed

theorem monitor_invariant_witness:
  "\<exists>rs h'. api_run retry_glibc (replicate PIPE_BUF NUL) (watched_run @ [Watch 0 3 1 Event, LibClean]) fresh_env = Some (rs, h') \<and>
    length (monitors h') = 1 \<and> (\<exists>f. conf_name h' = Some f \<and> str_at (monitors h' ! 0) h' = Some f) \<and> (\<forall>x \<in> owns h' 0. strs h' x \<noteq> None)"
proof -
  let ?ops = "watched_run @ [Watch 0 3 1 Event, LibClean]"
  have ok: "list_all call_ok ?ops" by (simp add: watched_run_def INT_MAX_def)
  obtain rs h' where w: "api_run retry_glibc (replicate PIPE_BUF NUL) ?ops fresh_env = Some (rs, h')" "\<forall>i < length (monitors h').
      (\<exists>f. conf_name h' = Some f \<and> str_at (monitors h' ! i) h' = Some f) \<and> (\<forall>x \<in> owns h' i. strs h' x \<noteq> None)"
    using monitor_invariant [OF fresh_rep _ ok, of "replicate PIPE_BUF NUL"] by auto
  have "api_rep retry_glibc ''prog'' (init_pairs fresh_env) h' (snd (spec_run ''prog'' (init_pairs fresh_env) ?ops fresh_logger))"
    using api_run_ok [OF fresh_rep _ ok, of "replicate PIPE_BUF NUL"] w(1) by auto
  from api_rep_monitors [OF this] have "length (monitors h') = 1"
    by (simp add: spec_run_def run_spec_def watched_run_def fresh_logger_def watch_spec_def format_spec_def started_def set_ctx_def)
  then show ?thesis using w by (intro exI [of _ rs] exI [of _ h']) auto
qed

text \<open>C8: the level follows the configuration file. While a monitor runs, a change of the file reaches
  the level with the next event that this monitor sees, whatever calls the threads of the process and
  whatever turns the monitors make in between, as long as nobody initialises or cleans the library
  or changes the file again.\<close>

theorem api_follows_file:
  assumes "api_rep retry pn fds h a" "length stack = PIPE_BUF" "list_all call_ok ops" "list_all calm ops"
    "i < length (monitors h)" "watches h i = Looping d b" "log_format_init_done (configuration h) \<noteq> 0" "list_all config_line ls" "file_level ls = Some l"
  shows "\<exists>rs h'. api_run retry stack (FileChange ls # ops @ [Watch i ifd wfd Event, GetLevel]) h = Some (rs @ [Void, Lev l], h')"
proof -
  have i: "i < length (a_watch a)" using api_rep_monitors [OF assms(1)] assms(5) by simp
  note w = api_rep_watching [OF assms(1) i]
  have "a_watch a ! i = Watching" "a_conf a \<noteq> None" "a_flag a" using w(1,3) assms(6,7) api_repD(8) [OF assms(1)] by auto
  then have "watched i l (snd (spec_run pn fds [FileChange ls] a))" using i assms(9) by (auto simp: watched_def spec_run_def run_spec_def)
  then have "watched i l (snd (spec_run pn fds (FileChange ls # ops) a))"
    using calm_run_watched [OF assms(4)] spec_run_append [of pn fds "[FileChange ls]" ops a] by simp
  from watched_event [OF this] have e: "fst (spec_run pn fds ((FileChange ls # ops) @ [Watch i ifd wfd Event, GetLevel]) a) =
      fst (spec_run pn fds (FileChange ls # ops) a) @ [Void, Lev l]" unfolding spec_run_append_fst by simp
  have "list_all call_ok (FileChange ls # ops @ [Watch i ifd wfd Event, GetLevel])" using assms(3,8,9) by simp
  from api_run_ok [OF assms(1,2) this] e show ?thesis by auto
qed

theorem api_follows_file_witness:
  "\<exists>rs h rs' h'. api_run retry_glibc (replicate PIPE_BUF NUL) watched_run fresh_env = Some (rs, h) \<and>
    api_run retry_glibc (replicate PIPE_BUF NUL) (FileChange [''log-level: Warn''] # [SetLevel MDCLOG_INFO] @ [Watch 0 3 1 Event, GetLevel]) h =
      Some (rs' @ [Void, Lev MDCLOG_WARN], h')"
proof -
  from watched_run_rep obtain rs h a where h: "api_run retry_glibc (replicate PIPE_BUF NUL) watched_run fresh_env = Some (rs, h)"
    "api_rep retry_glibc ''prog'' (init_pairs fresh_env) h a" "a_watch a = [Watching]" "a_flag a" by blast
  have m: "0 < length (monitors h)" "log_format_init_done (configuration h) \<noteq> 0" using api_rep_monitors [OF h(2)] api_repD(8) [OF h(2)] h(3,4) by simp_all
  obtain d b where "watches h 0 = Looping d b" using api_rep_watching(1) [OF h(2), of 0] h(3) by auto
  from api_follows_file [OF h(2) _ _ _ m(1) this m(2) file_level_warn(2,1), of "replicate PIPE_BUF NUL" "[SetLevel MDCLOG_INFO]"] h(1)
  show ?thesis by auto
qed

text \<open>C30: a request to stop can get lost. \<open>mdclog_init\<close> and \<open>mdclog_lib_clean\<close> take down the flag that keeps
  the monitors running, but a monitor that has not begun yet raises it again. It is in its
  loop then, with the flag up, and so is every monitor that was in its loop and had not yet seen the
  flag down.\<close>

theorem monitor_stop_lost:
  assumes "api_rep retry pn fds h a" "length stack = PIPE_BUF" "op = Init \<or> op = LibClean" "j < length (monitors h)" "watches h j = Pending" "ifd \<ge> 0" "wfd \<ge> 0"
  shows "\<exists>rs h'. api_run retry stack [op, Watch j ifd wfd ev] h = Some (rs, h') \<and> log_format_init_done (configuration h') \<noteq> 0 \<and>
    (\<forall>i < length (monitors h). i = j \<or> (\<exists>d b. watches h i = Looping d b) \<longrightarrow> (\<exists>d b. watches h' i = Looping d b))"
proof -
  let ?b = "snd (spec_run pn fds [op, Watch j ifd wfd ev] a)"
  have j: "length (monitors h) = length (a_watch a)" "j < length (a_watch a)" using api_rep_monitors [OF assms(1)] assms(4) by simp_all
  then have "a_watch a ! j = Starting" using api_rep_watching(2) [OF assms(1)] assms(5) by simp
  then have b: "a_watch ?b = (a_watch a)[j := Watching]" "a_flag ?b" using assms(3,6,7) j by (auto simp: spec_run_def run_spec_def watch_spec_def)
  have "list_all call_ok [op, Watch j ifd wfd ev]" using assms(3) by auto
  from api_run_ok [OF assms(1,2) this] obtain h' where h': "api_run retry stack [op, Watch j ifd wfd ev] h = Some (fst (spec_run pn fds [op, Watch j ifd wfd ev] a), h')"
    "api_rep retry pn fds h' ?b" by blast
  have "\<exists>d b. watches h' i = Looping d b" if i: "i < length (monitors h)" "i = j \<or> (\<exists>d b. watches h i = Looping d b)" for i
  proof -
    have "a_watch ?b ! i = Watching" using i api_rep_watching(1) [OF assms(1), of i] j b(1) by (auto simp: nth_list_update)
    then show ?thesis using api_rep_watching(1) [OF h'(2), of i] i(1) j b(1) by simp
  qed
  moreover have "log_format_init_done (configuration h') \<noteq> 0" using api_repD(8) [OF h'(2)] b(2) by simp
  ultimately show ?thesis using h'(1) by blast
qed

theorem monitor_stop_lost_witness:
  "\<exists>rs h rs' h' d b. api_run retry_glibc (replicate PIPE_BUF NUL) [Setup 1 ''me'' 1] fresh_env = Some (rs, h) \<and>
    api_run retry_glibc (replicate PIPE_BUF NUL) [LibClean, Watch 0 3 1 Timeout] h = Some (rs', h') \<and> watches h' 0 = Looping d b"
proof -
  have "list_all call_ok [Setup 1 ''me'' 1]" by (simp add: INT_MAX_def)
  from api_run_ok [OF fresh_rep _ this, of "replicate PIPE_BUF NUL"]
  obtain rs h where h: "api_run retry_glibc (replicate PIPE_BUF NUL) [Setup 1 ''me'' 1] fresh_env = Some (rs, h)"
    "api_rep retry_glibc ''prog'' (init_pairs fresh_env) h (snd (spec_run ''prog'' (init_pairs fresh_env) [Setup 1 ''me'' 1] fresh_logger))" by auto
  have "a_watch (snd (spec_run ''prog'' fds [Setup 1 ''me'' 1] fresh_logger)) = [Starting]" for fds
    by (simp add: spec_run_def run_spec_def fresh_logger_def format_spec_def started_def set_ctx_def)
  then have m: "0 < length (monitors h)" "watches h 0 = Pending" using api_rep_monitors [OF h(2)] api_rep_watching(2) [OF h(2), of 0] by simp_all
  from monitor_stop_lost [OF h(2) _ _ m, of "replicate PIPE_BUF NUL" LibClean 3 1 Timeout] h(1) m(1) show ?thesis by auto
qed

end
