(* ===== verification/Spec2Isabelle.thy ===== *)
theory Spec2Isabelle
  imports Init_Race Api_Refinement
begin

text \<open>
  A verification of the logging library mdclog (\<open>com-log\<close>): C functions that write log entries as
  lines of JSON to the standard output, with a context of key/value pairs per thread (the MDC), an
  identity per process, and a log level that can follow a configuration file.

  \<^bold>\<open>The program and the theories.\<close> \<open>mdclog_write\<close> checks the level, initialises the library on the
  first call, formats the entry with the identity and the calling thread's context into a buffer of
  \<open>PIPE_BUF\<close> bytes and writes it. The context functions work on a linked list that hangs off a
  thread-specific key. \<open>mdclog_format_initialize\<close> fills the context from the environment, reads the
  level from a file and starts a thread that reads it again whenever the file changes.

  \<^item> \<open>C_Prelude\<close>: what the code uses of C and its library: byte blocks with bounds-checked access, C
    strings, \<open>size_t\<close> arithmetic that wraps, \<open>int\<close>, \<open>snprintf\<close>, decimal numbers, \<open>isprint\<close> and
    \<open>tolower\<close> in the C locale.
  \<^item> \<open>C_Heap\<close>: \<open>malloc\<close>, \<open>free\<close>, \<open>strdup\<close> and \<open>errno\<close>. Every access goes through maps of live objects, so
    that a NULL dereference, a use after free and a double free are \<open>None\<close>; the environment decides
    which allocations fail.
  \<^item> \<open>Json_Escape\<close>: the escaping routines of \<open>src/src/json_format.c\<close>.
  \<^item> \<open>Mdc\<close>, \<open>Mdc_Correct\<close>, \<open>Mdc_Store\<close>: \<open>src/src/mdc.c\<close>, the list of entries with its \<open>prev\<close> and \<open>next\<close>
    pointers, the thread-specific data and \<open>pthread_once\<close>; the list segments that represent a
    context, and the refinement of association lists and maps.
  \<^item> \<open>Json_Format\<close>, \<open>Json_Format_Correct\<close>, \<open>Json_Reader\<close>: the formatting functions of
    \<open>src/src/json_format.c\<close>; the exact text they write into the room they have; a reader of JSON with
    which the entry reads back.
  \<^item> \<open>Mdclog\<close>, \<open>Mdclog_Correct\<close>: the API of \<open>src/src/mdclog.c\<close> (initialisation, attributes, level,
    \<open>mdclog_write\<close>, the context calls, \<open>mdclog_lib_clean\<close>) and the retry macro of
    \<open>src/include/private/system.h\<close>.
  \<^item> \<open>Init_Race\<close>: \<open>init_library\<close> and \<open>mdclog_init\<close> by any number of threads, as a step relation with
    the test of \<open>init_done\<close>, \<open>pthread_once\<close> and the part under the lock as separate steps, and the
    threads in \<open>mdclog_write\<close> that hold the lock as readers.
  \<^item> \<open>Log_Config\<close>, \<open>Log_Config_Correct\<close>, \<open>Log_Monitor\<close>: the second half of \<open>src/src/mdclog.c\<close>: the
    environment, the parser of the configuration file with \<open>fgets\<close> and \<open>strtok\<close>, the monitor thread
    (set-up, one round of its loop, clean-up) and \<open>mdclog_format_initialize\<close>.
  \<^item> \<open>Lib_Threads\<close>, \<open>Process\<close>: the library with all its threads. \<open>lib_all\<close> is the state as the threads
    of the client see it, with one list per thread in parts of the heap that do not overlap, and
    \<open>tidy\<close> says that nothing else is allocated but the blocks the monitors hold. \<open>watch_turn\<close> is
    \<open>monitor_loglevel_change_handler\<close> in turns: everything up to the loop, one round of the loop, or
    the way out of it; \<open>watches\<close> says how far each monitor has got.
  \<^item> \<open>Api\<close>, \<open>Api_Refinement\<close>: the library from the outside. \<open>api_op\<close> are the calls of a client, the turns
    of the monitors and the changes of the configuration file; \<open>api_call\<close> runs one of them, and
    \<open>api_spec\<close> is what it means for the abstract \<open>logger\<close>: whether it is initialised, the identity, the
    level, the context of each thread, the threads that hold memory, the lines written, the level in
    the file, the monitors and the flag that keeps them running. The end of a thread, at which the
    destructor of the key runs, is one of the calls.

  Definitions carry the names of the C functions; loops are functions of their own, named after the
  function (\<open>escape_loop\<close>, \<open>search_loop\<close>, \<open>fields_loop\<close>). The state is a record that grows with the
  components: \<open>heap\<close>, \<open>mdc_heap\<close>, \<open>mdclog\<close>, \<open>log_env\<close>, \<open>process\<close>. A call that faults in C is \<open>None\<close>, so a
  theorem that gives a result as \<open>Some\<close> also shows that the code does not fault there.

  \<^bold>\<open>What is shown.\<close>
  \<^item> Escaping: the longest prefix that fits is written and no escape is split; the size that is asked
    for in advance is exact; de-escaping is the inverse up to the replaced characters.
  \<^item> Store: every operation implements its counterpart on association lists and touches nothing else
    of the heap (\<open>context_store\<close>, interpreted by \<open>thread_store\<close>); any interleaving of the calls of
    several threads behaves like one map per thread; destroying a list gives back all its memory.
  \<^item> Formatter: it never overruns its buffer; the entry is valid JSON that reads back to what was
    logged (\<open>codec\<close>, interpreted for strings, numbers, members and objects); what is cut is marked.
  \<^item> API: one line per call that passes the level, in one \<open>write\<close>, whatever interruptions come first
    (\<open>retry_policy\<close>, interpreted for both definitions of the macro); the loop around \<open>write\<close> returns
    exactly when the kernel does not answer with retryable errors for ever; the life cycle of the
    attributes and of the identity; argument checks.
  \<^item> Concurrent initialisation: an invariant of all interleavings, no fault, no thread is stuck, and no
    entry is formatted with an identity that has been freed.
  \<^item> The library as a whole: any sequence of calls, by any threads, with the turns of the monitors and
    the changes of the file in between, runs without a fault, returns the results of the specification
    and writes its lines (\<open>simulation\<close>, interpreted by \<open>api\<close> for the whole process and by \<open>threads\<close> for
    the store); every line can be read; what each call returns is known; no monitor uses memory that
    others free, nor the other way round; a change of the file reaches the level with the next event of a monitor; and when the threads have ended and
    the library is cleaned nothing is left allocated but what the monitors hold.
  \<^item> Configuration: the level for every file of lines that fit the line buffer, against a
    specification in terms of the words of a line; the context after \<open>mdclog_format_initialize\<close>, and
    the monitor it starts.
  \<^item> Faults of the code: entries dropped or made unreadable at particular lengths, memory that is
    leaked or used after it was freed when an allocation fails, an error of \<open>vsnprintf\<close> that goes
    unnoticed, an identity lost between two threads, a monitor that cannot be
    stopped, configuration files that crash the process. Each of these theorems gives the conditions.

  \<^bold>\<open>Bounds.\<close> All lengths are those of the code. Hypotheses such as \<open>length s < INT_MAX\<close> and
  \<open>2 * length s + 1 < SIZE_MOD\<close> keep the \<open>int\<close> and \<open>size_t\<close> values of the code from wrapping. The only
  loop that may not end is the one around \<open>write\<close>, a partial function. The number of items
  \<open>read_obj\<close> reads is bounded by the length of the text, and each item takes at least one character.

  The runs of the API are those in which allocations and \<open>pthread\<close> calls succeed, \<open>write\<close> takes a whole
  line in the end, and the configuration file, if one is named, can be examined and always has a level
  line with a value; the descriptors of \<open>inotify\<close> may fail. What happens otherwise is shown for each
  function on its own. In the runs one call, or one turn of a monitor, comes after the other. Keys and
  values may be NULL; the functions of the attributes are called in the order of the developer guide
  (\<open>Setup\<close>), and in any order in the theorems on the attributes themselves.

  \<^bold>\<open>Parameters.\<close> The text that \<open>vsnprintf\<close> makes of the message, what \<open>gettimeofday\<close> returns, the answers
  of \<open>write\<close>, \<open>pthread_*\<close>, \<open>lstat\<close> and \<open>inotify\<close>, the environment and the files are arguments or parts
  of the state.

  \<^bold>\<open>Not modelled.\<close> The lock itself and weak memory: a section under the lock is one step. Concurrent
  calls of \<open>mdclog_lib_clean\<close>, which takes no lock. The buffering of \<open>printf\<close> and of the \<open>FILE\<close>
  functions, the file descriptors of the monitor (opened and closed in the same function) and its
  messages to the standard error output. The variants of the code under \<open>UNITTEST\<close>, the unit tests,
  the vendored test framework, the packaging and the build files.
\<close>

end
